theory Spec2Isabelle
  imports Complex_Main "HOL-Library.Multiset"
begin

section \<open>JavaScript values\<close>

text \<open>
  The rules engine (\<^verbatim>\<open>window.Rules\<close>) is dynamically typed: it inspects its arguments with
  \<^verbatim>\<open>typeof\<close>, truthiness tests and strict equality. The embedding therefore works on a
  datatype of JavaScript values.

  \<^item> A string is a list of characters, each standing for one UTF-16 code unit below 256.
  \<^item> A number is \<open>NaN\<close>, an infinity or a finite value. Finite values are rationals (a
    superset of the finite doubles; \<open>-0\<close> is identified with \<open>0\<close>). The engine
    only compares numbers and takes the sign of a difference, and IEEE subtraction never
    changes the sign of the exact difference.
  \<^item> \<open>Obj\<close> is a plain object (prototype \<^verbatim>\<open>Object.prototype\<close>) given by its own
    enumerable data properties; where a key occurs twice the first entry counts.
    \<open>Arr\<close> is an array. \<open>Fun\<close> is a function, named by a handle; what a call of
    it does is given by the host, see \<open>applyEffect\<close>.
  \<^item> Values are immutable: a rule object is not changed by its owner after it has been
    handed to the engine.
\<close>

datatype jsnum = NaN | NegInf | PosInf | Fin rat

datatype jsval =
    Undefined
  | Null
  | Bool bool
  | Num jsnum
  | Str string
  | Obj "(string \<times> jsval) list"
  | Arr "jsval list"
  | Fun nat

text \<open>
  A run of engine code either returns (\<open>Inr\<close>) or ends in an exception (\<open>Inl\<close>).
  \<open>TypeError\<close> is the exception JavaScript raises for a property read on
  \<^verbatim>\<open>undefined\<close>/\<^verbatim>\<open>null\<close> and for a call of something that is not a function.
  \<open>Unmodelled\<close> marks the inputs whose behaviour depends on parts of the host runtime
  that this development does not describe (number-to-string conversion, identity of
  two distinct objects, inherited prototype members, the full regular expression
  language); nothing is proved about them beyond the fact that they are flagged.
  The engine state at the moment an exception is raised is not part of the model.
\<close>

datatype exn = TypeError | Unmodelled

definition andThen :: "exn + 'a \<Rightarrow> ('a \<Rightarrow> exn + 'b) \<Rightarrow> exn + 'b" where
  "andThen m f = (case m of Inl e \<Rightarrow> Inl e | Inr v \<Rightarrow> f v)"

fun truthy :: "jsval \<Rightarrow> bool" where
  "truthy Undefined = False"
| "truthy Null = False"
| "truthy (Bool b) = b"
| "truthy (Num NaN) = False"
| "truthy (Num (Fin q)) = (q \<noteq> 0)"
| "truthy (Num _) = True"
| "truthy (Str s) = (s \<noteq> [])"
| "truthy (Obj _) = True"
| "truthy (Arr _) = True"
| "truthy (Fun _) = True"

fun typeof :: "jsval \<Rightarrow> string" where
  "typeof Undefined = ''undefined''"
| "typeof Null = ''object''"
| "typeof (Bool _) = ''boolean''"
| "typeof (Num _) = ''number''"
| "typeof (Str _) = ''string''"
| "typeof (Obj _) = ''object''"
| "typeof (Arr _) = ''object''"
| "typeof (Fun _) = ''function''"

text \<open>The relation \<^verbatim>\<open>a < b\<close> on numbers: false whenever an operand is \<open>NaN\<close>.\<close>

fun num_lt :: "jsnum \<Rightarrow> jsnum \<Rightarrow> bool" where
  "num_lt NaN _ = False"
| "num_lt _ NaN = False"
| "num_lt _ NegInf = False"
| "num_lt NegInf _ = True"
| "num_lt PosInf _ = False"
| "num_lt (Fin a) PosInf = True"
| "num_lt (Fin a) (Fin b) = (a < b)"

text \<open>The difference \<^verbatim>\<open>a - b\<close> of two numbers.\<close>

fun num_sub :: "jsnum \<Rightarrow> jsnum \<Rightarrow> jsnum" where
  "num_sub NaN _ = NaN"
| "num_sub _ NaN = NaN"
| "num_sub PosInf PosInf = NaN"
| "num_sub NegInf NegInf = NaN"
| "num_sub PosInf _ = PosInf"
| "num_sub NegInf _ = NegInf"
| "num_sub (Fin a) PosInf = NegInf"
| "num_sub (Fin a) NegInf = PosInf"
| "num_sub (Fin a) (Fin b) = Fin (a - b)"

fun num_eq :: "jsnum \<Rightarrow> jsnum \<Rightarrow> bool" where
  "num_eq NaN _ = False"
| "num_eq _ NaN = False"
| "num_eq a b = (a = b)"

text \<open>
  Strict equality \<^verbatim>\<open>a === b\<close>. Two objects or two arrays are equal when they are the same
  object, which a value cannot tell; two function handles name the same function when
  they are equal.
\<close>

fun strict_eq :: "jsval \<Rightarrow> jsval \<Rightarrow> exn + bool" where
  "strict_eq (Obj _) (Obj _) = Inl Unmodelled"
| "strict_eq (Arr _) (Arr _) = Inl Unmodelled"
| "strict_eq (Num a) (Num b) = Inr (num_eq a b)"
| "strict_eq a b = Inr (a = b)"

text \<open>
  The members every plain object inherits from \<^verbatim>\<open>Object.prototype\<close>. Each of them is a
  function, except \<^verbatim>\<open>__proto__\<close>, which reads as the prototype object: all are truthy.
\<close>

definition Object_prototype_keys :: "string list" where
  "Object_prototype_keys =
     [''constructor'', ''__proto__'', ''hasOwnProperty'', ''isPrototypeOf'',
      ''propertyIsEnumerable'', ''toLocaleString'', ''toString'', ''valueOf'',
      ''__defineGetter__'', ''__defineSetter__'', ''__lookupGetter__'',
      ''__lookupSetter__'']"

text \<open>
  The property names the engine reads by name, apart from \<^verbatim>\<open>name\<close> (which a function
  owns). No string, number, boolean, array or function has or inherits a property of
  one of these names, so reading one from such a value gives \<^verbatim>\<open>undefined\<close>.
\<close>

definition engine_keys :: "string list" where
  "engine_keys =
     [''id'', ''priority'', ''level'', ''condition'', ''effect'', ''enabled'',
      ''action'', ''target'', ''when'', ''context'', ''type'', ''reason'',
      ''transform'', ''modifiedAction'', ''rules'', ''mode'', ''activeMode'']"

text \<open>The property read \<^verbatim>\<open>v.k\<close> or \<^verbatim>\<open>v[k]\<close>.\<close>

fun get_prop :: "jsval \<Rightarrow> string \<Rightarrow> exn + jsval" where
  "get_prop Undefined k = Inl TypeError"
| "get_prop Null k = Inl TypeError"
| "get_prop (Obj kvs) k =
     (case map_of kvs k of
        Some v \<Rightarrow> Inr v
      | None \<Rightarrow> if k \<in> set Object_prototype_keys then Inl Unmodelled else Inr Undefined)"
| "get_prop v k = (if k \<in> set engine_keys then Inr Undefined else Inl Unmodelled)"

text \<open>
  \<^verbatim>\<open>String(v)\<close>, as a template literal, a property key and \<^verbatim>\<open>RegExp.prototype.test\<close>
  apply it to their argument.
\<close>

fun ToString :: "jsval \<Rightarrow> exn + string" where
  "ToString (Str s) = Inr s"
| "ToString Undefined = Inr ''undefined''"
| "ToString Null = Inr ''null''"
| "ToString (Bool b) = Inr (if b then ''true'' else ''false'')"
| "ToString _ = Inl Unmodelled"

text \<open>\<^verbatim>\<open>xs.includes(v)\<close> for an array \<open>xs\<close> of string literals.\<close>

definition array_includes :: "string list \<Rightarrow> jsval \<Rightarrow> bool" where
  "array_includes xs v = (v \<in> set (map Str xs))"

text \<open>\<^verbatim>\<open>xs.filter(p)\<close> and \<^verbatim>\<open>xs.findIndex(p)\<close> for a callback that may raise.\<close>

fun filterM :: "('a \<Rightarrow> exn + bool) \<Rightarrow> 'a list \<Rightarrow> exn + 'a list" where
  "filterM p [] = Inr []"
| "filterM p (x # xs) =
     andThen (p x) (\<lambda>b. andThen (filterM p xs) (\<lambda>ys. Inr (if b then x # ys else ys)))"

fun findIndex :: "('a \<Rightarrow> exn + bool) \<Rightarrow> 'a list \<Rightarrow> exn + nat option" where
  "findIndex p [] = Inr None"
| "findIndex p (x # xs) =
     andThen (p x) (\<lambda>b. if b then Inr (Some 0)
                         else andThen (findIndex p xs) (\<lambda>r. Inr (map_option Suc r)))"

subsection \<open>Sorting\<close>

text \<open>
  \<^verbatim>\<open>xs.sort(cmp)\<close> is a stable sort. For a comparator that is a consistent order every
  stable sort returns the same list, so an insertion sort stands for the runtime's
  algorithm. A comparator result of \<open>NaN\<close> counts as \<open>0\<close>; a comparator that then is
  no consistent order leaves the result to the implementation, and nothing below
  relies on the list this function returns in that case beyond its being a
  permutation.
\<close>

fun insort_by :: "('a \<Rightarrow> 'a \<Rightarrow> exn + jsnum) \<Rightarrow> 'a \<Rightarrow> 'a list \<Rightarrow> exn + 'a list" where
  "insort_by cmp x [] = Inr [x]"
| "insort_by cmp x (y # ys) =
     andThen (cmp x y) (\<lambda>v.
       if num_lt (Fin 0) v then andThen (insort_by cmp x ys) (\<lambda>zs. Inr (y # zs))
       else Inr (x # y # ys))"

fun sort_by :: "('a \<Rightarrow> 'a \<Rightarrow> exn + jsnum) \<Rightarrow> 'a list \<Rightarrow> exn + 'a list" where
  "sort_by cmp [] = Inr []"
| "sort_by cmp (x # xs) = andThen (sort_by cmp xs) (insort_by cmp x)"

text \<open>\<^verbatim>\<open>a - b\<close> on values; only the difference of two numbers is described.\<close>

fun js_sub :: "jsval \<Rightarrow> jsval \<Rightarrow> exn + jsnum" where
  "js_sub (Num a) (Num b) = Inr (num_sub a b)"
| "js_sub _ _ = Inl Unmodelled"

section \<open>Regular expressions\<close>

text \<open>
  \<^verbatim>\<open>new RegExp(src).test(s)\<close> for the sources made of: an optional leading \<^verbatim>\<open>^\<close>, an
  optional trailing \<^verbatim>\<open>$\<close>, and between them literal characters and \<^verbatim>\<open>.\<close>, each possibly
  followed by \<^verbatim>\<open>*\<close>. Without flags \<^verbatim>\<open>.\<close> matches every code unit except line feed and
  carriage return. Any other source is \<open>Unmodelled\<close> (it may also be a syntax error).
\<close>

datatype atom = Lit char | AnyChar

definition regex_syntax_chars :: "char list" where
  "regex_syntax_chars = CHR 0x5C # ''^$.*+?()[]{}|''"

fun parse_atoms :: "string \<Rightarrow> (atom \<times> bool) list option" where
  "parse_atoms [] = Some []"
| "parse_atoms (c # cs) =
     (if c \<noteq> CHR ''.'' \<and> c \<in> set regex_syntax_chars then None
      else let a = (if c = CHR ''.'' then AnyChar else Lit c) in
        (case cs of
           d # ds \<Rightarrow>
             if d = CHR ''*'' then map_option (\<lambda>r. (a, True) # r) (parse_atoms ds)
             else map_option (\<lambda>r. (a, False) # r) (parse_atoms cs)
         | [] \<Rightarrow> Some [(a, False)]))"

definition parse_regex :: "string \<Rightarrow> (bool \<times> (atom \<times> bool) list \<times> bool) option" where
  "parse_regex src =
     (let anchored_start = (src \<noteq> [] \<and> hd src = CHR ''^'');
          rest = (if anchored_start then tl src else src);
          anchored_end = (rest \<noteq> [] \<and> last rest = CHR ''$'');
          body = (if anchored_end then butlast rest else rest)
      in map_option (\<lambda>atoms. (anchored_start, atoms, anchored_end)) (parse_atoms body))"

fun atom_matches :: "atom \<Rightarrow> char \<Rightarrow> bool" where
  "atom_matches (Lit c) d = (c = d)"
| "atom_matches AnyChar d = (d \<noteq> CHR 0x0A \<and> d \<noteq> CHR 0x0D)"

fun match_here :: "(atom \<times> bool) list \<Rightarrow> bool \<Rightarrow> string \<Rightarrow> bool" where
  "match_here [] at_end s = (if at_end then s = [] else True)"
| "match_here ((a, False) # items) at_end [] = False"
| "match_here ((a, False) # items) at_end (c # cs) =
     (atom_matches a c \<and> match_here items at_end cs)"
| "match_here ((a, True) # items) at_end [] = match_here items at_end []"
| "match_here ((a, True) # items) at_end (c # cs) =
     (match_here items at_end (c # cs)
      \<or> (atom_matches a c \<and> match_here ((a, True) # items) at_end cs))"

fun match_from :: "(atom \<times> bool) list \<Rightarrow> bool \<Rightarrow> string \<Rightarrow> bool" where
  "match_from items at_end [] = match_here items at_end []"
| "match_from items at_end (c # cs) =
     (match_here items at_end (c # cs) \<or> match_from items at_end cs)"

definition RegExp_test :: "string \<Rightarrow> jsval \<Rightarrow> exn + bool" where
  "RegExp_test src target =
     (case parse_regex src of
        None \<Rightarrow> Inl Unmodelled
      | Some (anchored_start, atoms, anchored_end) \<Rightarrow>
          andThen (ToString target) (\<lambda>s.
            Inr (if anchored_start then match_here atoms anchored_end s
                 else match_from atoms anchored_end s)))"

section \<open>The rules engine\<close>

text \<open>
  The engine object \<^verbatim>\<open>window.Rules\<close> holds the rule list \<^verbatim>\<open>_rules\<close> and the flag
  \<^verbatim>\<open>_initialized\<close>. The diagnostics sink \<^verbatim>\<open>window.Debugger\<close> (\<^verbatim>\<open>js/debugger.js\<close>) stores
  and prints the events it is given, and runs its listeners inside a \<^verbatim>\<open>try\<close>. The engine
  hands it strings it has built itself, rules, decisions and the fields of the request; with
  an action and a target that are strings, as the engine documents them, these calls return,
  and they are left out. The one call that is given a value of any kind is the
  \<^verbatim>\<open>logError\<close> in the \<^verbatim>\<open>catch\<close> of \<^verbatim>\<open>_applyEffect\<close>, whose argument is what the transform
  threw; it is part of \<open>applyEffect\<close>. For a target that is no string, the line the sink
  prints for a denial in development mode applies \<^verbatim>\<open>String\<close> to it; that is not described.
\<close>

record engine =
  rules :: "jsval list"
  initialized :: bool

definition HIERARCHY :: "string list" where
  "HIERARCHY = [''system'', ''environment'', ''project'', ''mode'', ''widget'']"

definition ACTIONS :: "string list" where
  "ACTIONS =
     [''widget.open'', ''widget.close'', ''widget.execute'', ''widget.install'',
      ''widget.uninstall'',
      ''window.create'', ''window.close'', ''window.move'', ''window.resize'',
      ''window.focus'', ''window.minimize'', ''window.maximize'',
      ''db.read'', ''db.write'', ''db.delete'', ''db.export'', ''db.import'',
      ''project.create'', ''project.open'', ''project.save'', ''project.export'',
      ''project.delete'', ''project.switch'', ''project.clone'',
      ''page.create'', ''page.update'', ''page.delete'', ''page.preview'',
      ''ui.notify'', ''ui.alert'', ''ui.confirm'',
      ''system.boot'', ''system.shutdown'', ''system.debug'', ''system.log'',
      ''system.settings.read'', ''system.settings.write'']"

text \<open>
  Whether \<^verbatim>\<open>this.ACTIONS[key]\<close> is truthy. \<^verbatim>\<open>ACTIONS\<close> is an object literal whose own
  properties all hold \<^verbatim>\<open>true\<close>; the read also finds the members inherited from
  \<^verbatim>\<open>Object.prototype\<close>.
\<close>

definition ACTIONS_truthy :: "string \<Rightarrow> bool" where
  "ACTIONS_truthy key = (key \<in> set ACTIONS \<or> key \<in> set Object_prototype_keys)"

subsection \<open>Strings\<close>

definition startsWith :: "string \<Rightarrow> string \<Rightarrow> bool" where
  "startsWith s pre = (take (length pre) s = pre)"

definition endsWith :: "string \<Rightarrow> string \<Rightarrow> bool" where
  "endsWith s suf = (length suf \<le> length s \<and> drop (length s - length suf) s = suf)"

text \<open>\<^verbatim>\<open>pattern.replace(/\*/g, '.*')\<close>\<close>

definition replace_stars :: "string \<Rightarrow> string" where
  "replace_stars p = concat (map (\<lambda>c. if c = CHR ''*'' then ''.*'' else [c]) p)"

text \<open>
  A method call \<^verbatim>\<open>v.startsWith(...)\<close> or \<^verbatim>\<open>v.forEach(...)\<close> on a value that is not of
  the type owning the method: a \<open>TypeError\<close>, unless the value is an object carrying a
  function of its own under that name.
\<close>

definition no_such_method :: "jsval \<Rightarrow> string \<Rightarrow> exn" where
  "no_such_method v m =
     (case v of
        Obj kvs \<Rightarrow> (case map_of kvs m of Some (Fun f) \<Rightarrow> Unmodelled | _ \<Rightarrow> TypeError)
      | _ \<Rightarrow> TypeError)"

subsection \<open>Validation\<close>

definition validateRule :: "jsval \<Rightarrow> exn + bool" where
  "validateRule rule =
     andThen (get_prop rule ''id'') (\<lambda>rid.
     if \<not> truthy rid \<or> typeof rid \<noteq> ''string'' then Inr False else
     andThen (get_prop rule ''name'') (\<lambda>name.
     if \<not> truthy name \<or> typeof name \<noteq> ''string'' then Inr False else
     andThen (get_prop rule ''priority'') (\<lambda>priority.
     if (case priority of
           Num p \<Rightarrow> num_lt p (Fin 1) \<or> num_lt (Fin 1000) p
         | _ \<Rightarrow> True) then Inr False else
     andThen (get_prop rule ''level'') (\<lambda>level.
     if \<not> array_includes HIERARCHY level then Inr False else
     andThen (get_prop rule ''condition'') (\<lambda>condition.
     if \<not> truthy condition \<or> typeof condition \<noteq> ''object'' then Inr False else
     andThen (get_prop condition ''action'') (\<lambda>action.
     if \<not> truthy action \<or> typeof action \<noteq> ''string'' then Inr False else
     andThen (get_prop rule ''effect'') (\<lambda>effect.
     if \<not> truthy effect \<or> typeof effect \<noteq> ''object'' then Inr False else
     andThen (get_prop effect ''type'') (\<lambda>type.
     if \<not> array_includes [''allow'', ''deny'', ''modify''] type then Inr False else
     andThen (get_prop rule ''enabled'') (\<lambda>enabled.
     if typeof enabled \<noteq> ''boolean'' then Inr False else Inr True)))))))))"

subsection \<open>Registration and removal\<close>

text \<open>The callback \<^verbatim>\<open>r => r.id === id\<close>.\<close>

definition has_id :: "jsval \<Rightarrow> jsval \<Rightarrow> exn + bool" where
  "has_id rid r = andThen (get_prop r ''id'') (\<lambda>i. strict_eq i rid)"

text \<open>The comparator \<^verbatim>\<open>(a, b) => b.priority - a.priority\<close>.\<close>

definition by_priority :: "jsval \<Rightarrow> jsval \<Rightarrow> exn + jsnum" where
  "by_priority a b =
     andThen (get_prop b ''priority'') (\<lambda>pb.
     andThen (get_prop a ''priority'') (\<lambda>pa. js_sub pb pa))"

definition register :: "engine \<Rightarrow> jsval \<Rightarrow> exn + (engine \<times> bool)" where
  "register st rule =
     (if \<not> truthy rule then Inr (st, False) else
      andThen (get_prop rule ''id'') (\<lambda>rid.
      if \<not> truthy rid then Inr (st, False) else
      andThen (validateRule rule) (\<lambda>valid.
      if \<not> valid then Inr (st, False) else
      andThen (findIndex (has_id rid) (rules st)) (\<lambda>existingIndex.
      andThen (sort_by by_priority
                 (case existingIndex of
                    Some i \<Rightarrow> (rules st)[i := rule]
                  | None \<Rightarrow> rules st @ [rule])) (\<lambda>sorted.
      Inr (st\<lparr>rules := sorted\<rparr>, True))))))"

definition unregister :: "engine \<Rightarrow> jsval \<Rightarrow> exn + (engine \<times> bool)" where
  "unregister st ruleId =
     andThen (findIndex (has_id ruleId) (rules st)) (\<lambda>index.
     case index of
       Some i \<Rightarrow>
         andThen (get_prop (rules st ! i) ''level'') (\<lambda>level.
         if level = Str ''system'' then Inr (st, False)
         else Inr (st\<lparr>rules := take i (rules st) @ drop (Suc i) (rules st)\<rparr>, True))
     | None \<Rightarrow> Inr (st, False))"

text \<open>The callbacks \<^verbatim>\<open>r => r.level === l\<close> and \<^verbatim>\<open>r => r.level !== l\<close>.\<close>

definition level_is :: "string \<Rightarrow> jsval \<Rightarrow> exn + bool" where
  "level_is l r = andThen (get_prop r ''level'') (\<lambda>level. Inr (level = Str l))"

definition level_is_not :: "string \<Rightarrow> jsval \<Rightarrow> exn + bool" where
  "level_is_not l r = andThen (get_prop r ''level'') (\<lambda>level. Inr (level \<noteq> Str l))"

definition clear :: "engine \<Rightarrow> exn + engine" where
  "clear st =
     andThen (filterM (level_is ''system'') (rules st)) (\<lambda>kept. Inr (st\<lparr>rules := kept\<rparr>))"

text \<open>The loop \<^verbatim>\<open>project.rules.forEach(...)\<close> of \<^verbatim>\<open>loadProjectRules\<close>.\<close>

fun forEach_register :: "engine \<Rightarrow> jsval list \<Rightarrow> exn + engine" where
  "forEach_register st [] = Inr st"
| "forEach_register st (rule # rest) =
     andThen (get_prop rule ''level'') (\<lambda>level.
     if level = Str ''project''
     then andThen (register st rule) (\<lambda>r. forEach_register (fst r) rest)
     else forEach_register st rest)"

definition loadProjectRules :: "engine \<Rightarrow> jsval \<Rightarrow> exn + engine" where
  "loadProjectRules st project =
     (if \<not> truthy project then Inr st else
      andThen (get_prop project ''rules'') (\<lambda>project_rules.
      if \<not> truthy project_rules then Inr st else
      andThen (filterM (level_is_not ''project'') (rules st)) (\<lambda>kept.
      case project_rules of
        Arr entries \<Rightarrow> forEach_register (st\<lparr>rules := kept\<rparr>) entries
      | _ \<Rightarrow> Inl (no_such_method project_rules ''forEach''))))"

subsection \<open>Built-in rules and initialisation\<close>

definition system_rule :: "string \<Rightarrow> string \<Rightarrow> rat \<Rightarrow> string \<Rightarrow> string \<Rightarrow> string \<Rightarrow> bool \<Rightarrow> jsval"
  where
  "system_rule rid name priority action type reason enabled =
     Obj [(''id'', Str rid), (''name'', Str name), (''priority'', Num (Fin priority)),
          (''level'', Str ''system''),
          (''condition'', Obj [(''action'', Str action), (''target'', Str ''*''),
                               (''when'', Str ''always'')]),
          (''effect'', Obj [(''type'', Str type), (''reason'', Str reason)]),
          (''enabled'', Bool enabled)]"

definition system_boot_allow :: jsval where
  "system_boot_allow =
     system_rule ''system-boot-allow'' ''Allow System Boot'' 1000 ''system.boot''
       ''allow'' ''System boot is always allowed'' True"

definition system_log_allow :: jsval where
  "system_log_allow =
     system_rule ''system-log-allow'' ''Allow System Logging'' 1000 ''system.log''
       ''allow'' ''System logging is always allowed'' True"

definition system_debug_allow :: jsval where
  "system_debug_allow =
     system_rule ''system-debug-allow'' ''Allow Debugger'' 1000 ''system.debug''
       ''allow'' ''Debugger access is always allowed'' True"

definition system_dangerous_deny :: jsval where
  "system_dangerous_deny =
     system_rule ''system-dangerous-deny'' ''Deny Dangerous Actions'' 50 ''*''
       ''deny'' ''Action not explicitly allowed'' False"

definition loadSystemRules :: "engine \<Rightarrow> exn + engine" where
  "loadSystemRules st =
     andThen (register st system_boot_allow) (\<lambda>r1.
     andThen (register (fst r1) system_log_allow) (\<lambda>r2.
     andThen (register (fst r2) system_debug_allow) (\<lambda>r3.
     andThen (register (fst r3) system_dangerous_deny) (\<lambda>r4. Inr (fst r4)))))"

definition init :: "engine \<Rightarrow> exn + engine" where
  "init st =
     (if initialized st then Inr st
      else andThen (loadSystemRules (st\<lparr>rules := []\<rparr>)) (\<lambda>st'.
           Inr (st'\<lparr>initialized := True\<rparr>)))"

text \<open>The engine object as the script creates it, before \<^verbatim>\<open>init\<close> has run.\<close>

definition fresh_engine :: engine where
  "fresh_engine = \<lparr>rules = [], initialized = False\<rparr>"

subsection \<open>Matching\<close>

definition matchesTarget :: "jsval \<Rightarrow> jsval \<Rightarrow> exn + bool" where
  "matchesTarget pattern target =
     (if pattern = Str ''*'' then Inr True else
      andThen (strict_eq pattern target) (\<lambda>same.
      if same then Inr True else
      (case pattern of
         Str p \<Rightarrow>
           if startsWith p ''/'' \<and> endsWith p ''/''
           then RegExp_test (butlast (tl p)) target
           else if CHR ''*'' \<in> set p
           then RegExp_test (''^'' @ replace_stars p @ ''$'') target
           else Inr False
       | _ \<Rightarrow> Inl (no_such_method pattern ''startsWith''))))"

definition matchesWhen :: "jsval \<Rightarrow> jsval \<Rightarrow> exn + bool" where
  "matchesWhen when context =
     (if when = Str ''always'' then Inr True else
      (case when of
         Str w \<Rightarrow>
           if startsWith w ''mode:''
           then andThen (get_prop context ''mode'') (\<lambda>m.
                if m = Str (drop 5 w) then Inr True
                else andThen (get_prop context ''activeMode'') (\<lambda>am.
                     Inr (am = Str (drop 5 w))))
           else Inr False
       | _ \<Rightarrow> Inl (no_such_method when ''startsWith'')))"

text \<open>
  The three checks that \<^verbatim>\<open>_getApplicableRules\<close> and \<^verbatim>\<open>_matchesCondition\<close> both make,
  in the same order, on a rule's condition: action, target, when.
\<close>

definition matches_action_target_when ::
  "jsval \<Rightarrow> jsval \<Rightarrow> jsval \<Rightarrow> jsval \<Rightarrow> exn + bool" where
  "matches_action_target_when cond action target context =
     andThen (get_prop cond ''action'') (\<lambda>cond_action.
     andThen (if cond_action \<noteq> Str ''*''
              then andThen (strict_eq cond_action action) (\<lambda>e. Inr (\<not> e))
              else Inr False) (\<lambda>action_differs.
     if action_differs then Inr False else
     andThen (get_prop cond ''target'') (\<lambda>cond_target.
     andThen (if cond_target \<noteq> Str ''*''
              then andThen (matchesTarget cond_target target) (\<lambda>m. Inr (\<not> m))
              else Inr False) (\<lambda>target_differs.
     if target_differs then Inr False else
     andThen (get_prop cond ''when'') (\<lambda>cond_when.
     if truthy cond_when \<and> cond_when \<noteq> Str ''always''
     then matchesWhen cond_when context
     else Inr True)))))"

text \<open>The callback of the \<^verbatim>\<open>filter\<close> in \<^verbatim>\<open>_getApplicableRules\<close>.\<close>

definition applicable :: "jsval \<Rightarrow> jsval \<Rightarrow> jsval \<Rightarrow> jsval \<Rightarrow> exn + bool" where
  "applicable action target context rule =
     andThen (get_prop rule ''enabled'') (\<lambda>enabled.
     if \<not> truthy enabled then Inr False else
     andThen (get_prop rule ''condition'') (\<lambda>cond.
     matches_action_target_when cond action target context))"

definition getApplicableRules ::
  "engine \<Rightarrow> jsval \<Rightarrow> jsval \<Rightarrow> jsval \<Rightarrow> exn + jsval list" where
  "getApplicableRules st action target context =
     filterM (applicable action target context) (rules st)"

text \<open>
  The keys a \<^verbatim>\<open>for (key in v)\<close> loop visits; the own properties of an \<open>Obj\<close> are
  listed in that order. Strings, arrays and functions are left out.
\<close>

fun for_in_keys :: "jsval \<Rightarrow> exn + string list" where
  "for_in_keys (Obj kvs) = Inr (map fst kvs)"
| "for_in_keys (Str s) = Inl Unmodelled"
| "for_in_keys (Arr xs) = Inl Unmodelled"
| "for_in_keys (Fun f) = Inl Unmodelled"
| "for_in_keys _ = Inr []"

text \<open>The loop over \<^verbatim>\<open>condition.context\<close> in \<^verbatim>\<open>_matchesCondition\<close>.\<close>

fun context_checks :: "string list \<Rightarrow> jsval \<Rightarrow> jsval \<Rightarrow> exn + bool" where
  "context_checks [] expected context = Inr True"
| "context_checks (key # keys) expected context =
     andThen (get_prop context key) (\<lambda>actual.
     andThen (get_prop expected key) (\<lambda>wanted.
     andThen (strict_eq actual wanted) (\<lambda>same.
     if \<not> same then Inr False else context_checks keys expected context)))"

definition matchesCondition :: "jsval \<Rightarrow> jsval \<Rightarrow> jsval \<Rightarrow> jsval \<Rightarrow> exn + bool" where
  "matchesCondition condition action target context =
     andThen (matches_action_target_when condition action target context) (\<lambda>ok.
     if \<not> ok then Inr False else
     andThen (get_prop condition ''context'') (\<lambda>expected.
     if \<not> truthy expected then Inr True else
     andThen (for_in_keys expected) (\<lambda>keys. context_checks keys expected context)))"

subsection \<open>Effects\<close>

text \<open>
  The decision \<^verbatim>\<open>{allowed, reason, modifiedAction}\<close>; \<open>modifiedAction = None\<close> when the
  object has no such property.
\<close>

record decision =
  allowed :: bool
  reason :: jsval
  modifiedAction :: "jsval option"

text \<open>
  What the engine finds around it is the host \<open>env\<close>. A call \<^verbatim>\<open>f(request)\<close> of a function
  value is answered by \<open>call env\<close>: \<open>call env f request\<close> is \<open>Inr v\<close> when the call
  returns \<open>v\<close> and \<open>Inl e\<close> when it throws \<open>e\<close>. The function is taken to return and to
  leave the engine alone. \<open>debugger env\<close> says whether \<^verbatim>\<open>window.Debugger\<close> is there.
\<close>

record host =
  call :: "nat \<Rightarrow> jsval \<Rightarrow> jsval + jsval"
  debugger :: bool

text \<open>
  \<^verbatim>\<open>Debugger.logError(message, error, context)\<close> builds its event from
  \<^verbatim>\<open>error ? error.toString() : null\<close> and \<^verbatim>\<open>error.stack\<close> before it hands it to
  \<^verbatim>\<open>capture\<close>, whether the sink is enabled or not. The method call raises a
  \<^verbatim>\<open>TypeError\<close> when \<^verbatim>\<open>error\<close> is an object with an own property \<^verbatim>\<open>toString\<close> that is
  no function. An own \<^verbatim>\<open>toString\<close> that is a function, and the \<^verbatim>\<open>toString\<close> of an
  array, which joins the elements, run code that is not described. Every other truthy
  value has the method of its prototype, which returns.
\<close>

definition logError :: "jsval \<Rightarrow> exn + unit" where
  "logError error =
     (if \<not> truthy error then Inr () else
      case error of
        Obj kvs \<Rightarrow>
          (case map_of kvs ''toString'' of
             None \<Rightarrow> Inr ()
           | Some (Fun f) \<Rightarrow> Inl Unmodelled
           | Some v \<Rightarrow> Inl TypeError)
      | Arr xs \<Rightarrow> Inl Unmodelled
      | _ \<Rightarrow> Inr ())"

definition or_default :: "jsval \<Rightarrow> jsval \<Rightarrow> jsval" where
  "or_default v d = (if truthy v then v else d)"

definition applyEffect :: "host \<Rightarrow> jsval \<Rightarrow> jsval \<Rightarrow> exn + decision" where
  "applyEffect env effect request =
     andThen (get_prop effect ''type'') (\<lambda>type.
     if type = Str ''allow'' then
       andThen (get_prop effect ''reason'') (\<lambda>r.
       Inr \<lparr>allowed = True, reason = or_default r (Str ''Action allowed by rule''),
            modifiedAction = None\<rparr>)
     else if type = Str ''deny'' then
       andThen (get_prop effect ''reason'') (\<lambda>r.
       Inr \<lparr>allowed = False, reason = or_default r (Str ''Action denied by rule''),
            modifiedAction = None\<rparr>)
     else if type = Str ''modify'' then
       andThen (get_prop effect ''transform'') (\<lambda>transform.
       case transform of
         Fun f \<Rightarrow>
           (case call env f request of
              Inr modified \<Rightarrow>
                andThen (get_prop effect ''reason'') (\<lambda>r.
                Inr \<lparr>allowed = True, reason = or_default r (Str ''Action modified by rule''),
                     modifiedAction = Some modified\<rparr>)
            | Inl e \<Rightarrow>
                andThen (if debugger env then logError e else Inr ()) (\<lambda>logged.
                Inr \<lparr>allowed = False, reason = Str ''Rule transform failed'',
                     modifiedAction = None\<rparr>))
       | _ \<Rightarrow>
           andThen (get_prop effect ''reason'') (\<lambda>r.
           andThen (get_prop effect ''modifiedAction'') (\<lambda>m.
           Inr \<lparr>allowed = True, reason = or_default r (Str ''Action modified by rule''),
                modifiedAction = Some (or_default m request)\<rparr>)))
     else
       andThen (ToString type) (\<lambda>s.
       Inr \<lparr>allowed = False, reason = Str (''Unknown effect type: '' @ s),
            modifiedAction = None\<rparr>))"

subsection \<open>Evaluation\<close>

text \<open>The loop \<^verbatim>\<open>for (const rule of applicableRules)\<close> of \<^verbatim>\<open>evaluate\<close> and its default.\<close>

fun evaluate_loop ::
  "host \<Rightarrow> jsval list \<Rightarrow> jsval \<Rightarrow> jsval \<Rightarrow> jsval \<Rightarrow> jsval \<Rightarrow> exn + decision" where
  "evaluate_loop env [] action target context request =
     Inr \<lparr>allowed = False, reason = Str ''No matching rule found'', modifiedAction = None\<rparr>"
| "evaluate_loop env (rule # rest) action target context request =
     andThen (get_prop rule ''enabled'') (\<lambda>enabled.
     if \<not> truthy enabled then evaluate_loop env rest action target context request else
     andThen (get_prop rule ''condition'') (\<lambda>condition.
     andThen (matchesCondition condition action target context) (\<lambda>matches.
     if \<not> matches then evaluate_loop env rest action target context request else
     andThen (get_prop rule ''effect'') (\<lambda>effect.
     applyEffect env effect request))))"

definition evaluate :: "host \<Rightarrow> engine \<Rightarrow> jsval \<Rightarrow> exn + (engine \<times> decision)" where
  "evaluate env st0 request =
     andThen (if \<not> initialized st0 then init st0 else Inr st0) (\<lambda>st.
     if \<not> truthy request then
       Inr (st, \<lparr>allowed = False, reason = Str ''Invalid request: missing action'',
                 modifiedAction = None\<rparr>) else
     andThen (get_prop request ''action'') (\<lambda>action.
     if \<not> truthy action then
       Inr (st, \<lparr>allowed = False, reason = Str ''Invalid request: missing action'',
                 modifiedAction = None\<rparr>) else
     andThen (ToString action) (\<lambda>key.
     if \<not> ACTIONS_truthy key \<and> action \<noteq> Str ''*'' then
       Inr (st, \<lparr>allowed = False, reason = Str (''Unknown action: '' @ key),
                 modifiedAction = None\<rparr>) else
     andThen (get_prop request ''target'') (\<lambda>t.
     andThen (get_prop request ''context'') (\<lambda>c.
     andThen (getApplicableRules st action
                (if t = Undefined then Str ''*'' else t)
                (if c = Undefined then Obj [] else c)) (\<lambda>applicableRules.
     andThen (evaluate_loop env applicableRules action
                (if t = Undefined then Str ''*'' else t)
                (if c = Undefined then Obj [] else c) request) (\<lambda>result.
     Inr (st, result))))))))"

section \<open>Vocabulary of the statements\<close>

text \<open>
  The definitions of this section are not part of the engine; the properties below are
  stated with them. \<open>read_prop\<close> is a property read that yields \<^verbatim>\<open>undefined\<close> where
  \<open>get_prop\<close> fails. \<open>request_target\<close> and \<open>request_context\<close> are the values
  \<^verbatim>\<open>evaluate\<close> destructures from the request, with their defaults. \<open>full_match\<close> says
  whether a rule is picked for a request: it passes the filter of
  \<^verbatim>\<open>_getApplicableRules\<close> and then \<^verbatim>\<open>_matchesCondition\<close>. \<open>booted\<close> is the engine
  after \<^verbatim>\<open>init\<close>.
\<close>

definition read_prop :: "jsval \<Rightarrow> string \<Rightarrow> jsval" where
  "read_prop v k = (case get_prop v k of Inr x \<Rightarrow> x | Inl e \<Rightarrow> Undefined)"

definition request_target :: "jsval \<Rightarrow> jsval" where
  "request_target request =
     (if read_prop request ''target'' = Undefined then Str ''*'' else read_prop request ''target'')"

definition request_context :: "jsval \<Rightarrow> jsval" where
  "request_context request =
     (if read_prop request ''context'' = Undefined then Obj [] else read_prop request ''context'')"

definition full_match :: "jsval \<Rightarrow> jsval \<Rightarrow> jsval \<Rightarrow> jsval \<Rightarrow> exn + bool" where
  "full_match action target context rule =
     andThen (applicable action target context rule) (\<lambda>a.
     if \<not> a then Inr False else
     andThen (get_prop rule ''condition'') (\<lambda>condition.
     matchesCondition condition action target context))"

definition booted :: engine where
  "booted = \<lparr>rules = [system_boot_allow, system_log_allow, system_debug_allow,
                       system_dangerous_deny],
            initialized = True\<rparr>"

definition valid_rule :: "jsval \<Rightarrow> bool" where
  "valid_rule r = (validateRule r = Inr True)"

definition rule_id :: "jsval \<Rightarrow> jsval" where
  "rule_id r = read_prop r ''id''"

definition rule_level :: "jsval \<Rightarrow> jsval" where
  "rule_level r = read_prop r ''level''"

definition priority_of :: "jsval \<Rightarrow> rat" where
  "priority_of r = (case read_prop r ''priority'' of Num (Fin q) \<Rightarrow> q | _ \<Rightarrow> 0)"

text \<open>
  The acceptance criterion for a candidate rule, in the words of the specification:
  id and name are non-empty strings, the priority passes a test, the level is in the
  hierarchy, the condition is present with a non-empty action pattern, \<^verbatim>\<open>effect.type\<close> is
  one of allow, deny, modify, and \<^verbatim>\<open>enabled\<close> is a boolean. The test of the priority is a
  parameter: \<open>is_integer_in_1_1000\<close> is the specification's (an integer in [1,1000]),
  \<open>is_number_in_1_1000\<close> drops the integrality, and \<open>passes_priority_check\<close> is what
  the validator's two comparisons come to.
\<close>

definition is_nonempty_string :: "jsval \<Rightarrow> bool" where
  "is_nonempty_string v = (case v of Str s \<Rightarrow> s \<noteq> [] | _ \<Rightarrow> False)"

definition is_boolean :: "jsval \<Rightarrow> bool" where
  "is_boolean v = (case v of Bool b \<Rightarrow> True | _ \<Rightarrow> False)"

definition is_integer_in_1_1000 :: "jsval \<Rightarrow> bool" where
  "is_integer_in_1_1000 v =
     (case v of Num (Fin q) \<Rightarrow> q = of_int \<lfloor>q\<rfloor> \<and> 1 \<le> q \<and> q \<le> 1000 | _ \<Rightarrow> False)"

definition is_number_in_1_1000 :: "jsval \<Rightarrow> bool" where
  "is_number_in_1_1000 v = (case v of Num (Fin q) \<Rightarrow> 1 \<le> q \<and> q \<le> 1000 | _ \<Rightarrow> False)"

definition passes_priority_check :: "jsval \<Rightarrow> bool" where
  "passes_priority_check v =
     (case v of Num p \<Rightarrow> \<not> num_lt p (Fin 1) \<and> \<not> num_lt (Fin 1000) p | _ \<Rightarrow> False)"

definition accepts_with :: "(jsval \<Rightarrow> bool) \<Rightarrow> jsval \<Rightarrow> bool" where
  "accepts_with priority_ok rule =
     (is_nonempty_string (read_prop rule ''id'') \<and>
      is_nonempty_string (read_prop rule ''name'') \<and>
      priority_ok (read_prop rule ''priority'') \<and>
      array_includes HIERARCHY (read_prop rule ''level'') \<and>
      truthy (read_prop rule ''condition'') \<and>
      is_nonempty_string (read_prop (read_prop rule ''condition'') ''action'') \<and>
      array_includes [''allow'', ''deny'', ''modify''] (read_prop (read_prop rule ''effect'') ''type'') \<and>
      is_boolean (read_prop rule ''enabled''))"

text \<open>
  A rule that reuses the id of the built-in rule \<^verbatim>\<open>system-boot-allow\<close> at level
  \<^verbatim>\<open>widget\<close>, denying the boot action.
\<close>

definition boot_override :: jsval where
  "boot_override =
     Obj [(''id'', Str ''system-boot-allow''), (''name'', Str ''Block boot''),
          (''priority'', Num (Fin 1000)), (''level'', Str ''widget''),
          (''condition'', Obj [(''action'', Str ''system.boot''), (''target'', Str ''*''),
                               (''when'', Str ''always'')]),
          (''effect'', Obj [(''type'', Str ''deny''), (''reason'', Str ''blocked'')]),
          (''enabled'', Bool True)]"


definition env_throws :: host where
  "env_throws = \<lparr>call = (\<lambda>f request. Inl (Str ''boom'')), debugger = True\<rparr>"

definition engine_with :: "jsval \<Rightarrow> engine" where
  "engine_with rule = (case register booted rule of Inr r \<Rightarrow> fst r | Inl e \<Rightarrow> booted)"

definition modify_rule :: "jsval \<Rightarrow> jsval" where
  "modify_rule transform =
     Obj [(''id'', Str ''rewrite-open''), (''name'', Str ''Rewrite widget open''),
          (''priority'', Num (Fin 10)), (''level'', Str ''widget''),
          (''condition'', Obj [(''action'', Str ''widget.open''), (''target'', Str ''*''),
                               (''when'', Str ''always'')]),
          (''effect'', Obj [(''type'', Str ''modify''), (''transform'', transform)]),
          (''enabled'', Bool True)]"

text \<open>
  A host whose transform throws \<^verbatim>\<open>{toString: null}\<close>, with the sink there; and a modify
  rule with no transform and the fallback payload \<open>payload\<close>.
\<close>

definition env_throws_unprintable :: host where
  "env_throws_unprintable =
     \<lparr>call = (\<lambda>f request. Inl (Obj [(''toString'', Null)])), debugger = True\<rparr>"


text \<open>A rule that passes validation and has no \<^verbatim>\<open>condition.target\<close>.\<close>

definition targetless_rule :: jsval where
  "targetless_rule =
     Obj [(''id'', Str ''no-target''), (''name'', Str ''Open widgets on weekdays''),
          (''priority'', Num (Fin 5)), (''level'', Str ''widget''),
          (''condition'', Obj [(''action'', Str ''widget.open''), (''when'', Str ''weekdays'')]),
          (''effect'', Obj [(''type'', Str ''allow''), (''reason'', Str ''ok'')]),
          (''enabled'', Bool True)]"

definition when_rule :: "string \<Rightarrow> jsval" where
  "when_rule w =
     Obj [(''id'', Str ''open-when''), (''name'', Str ''Open widgets''),
          (''priority'', Num (Fin 10)), (''level'', Str ''widget''),
          (''condition'', Obj [(''action'', Str ''widget.open''), (''target'', Str ''*''),
                               (''when'', Str w)]),
          (''effect'', Obj [(''type'', Str ''allow''), (''reason'', Str ''ok'')]),
          (''enabled'', Bool True)]"

definition widget_open :: "(string \<times> jsval) list \<Rightarrow> jsval" where
  "widget_open context = Obj [(''action'', Str ''widget.open''), (''context'', Obj context)]"

text \<open>
  \<open>first_index\<close> is \<^verbatim>\<open>findIndex\<close> for a callback that cannot raise, and \<open>placed s r\<close> is
  the list \<^verbatim>\<open>register\<close> hands to \<^verbatim>\<open>sort\<close>: \<open>r\<close> in the slot of the first rule with its
  id, or at the end when there is none.
\<close>

fun first_index :: "('a \<Rightarrow> bool) \<Rightarrow> 'a list \<Rightarrow> nat option" where
  "first_index P [] = None"
| "first_index P (x # xs) = (if P x then Some 0 else map_option Suc (first_index P xs))"

definition placed :: "jsval list \<Rightarrow> jsval \<Rightarrow> jsval list" where
  "placed s r =
     (case first_index (\<lambda>x. rule_id x = rule_id r) s of
        Some i \<Rightarrow> s[i := r]
      | None \<Rightarrow> s @ [r])"

definition priority_rule :: "string \<Rightarrow> jsnum \<Rightarrow> jsval" where
  "priority_rule rid p =
     Obj [(''id'', Str rid), (''name'', Str ''Open widgets''),
          (''priority'', Num p), (''level'', Str ''widget''),
          (''condition'', Obj [(''action'', Str ''widget.open''), (''target'', Str ''*''),
                               (''when'', Str ''always'')]),
          (''effect'', Obj [(''type'', Str ''allow''), (''reason'', Str ''ok'')]),
          (''enabled'', Bool True)]"

text \<open>
  \<open>accepted entries\<close> are the entries of a project's rule array that \<^verbatim>\<open>loadProjectRules\<close>
  hands to \<^verbatim>\<open>register\<close> and that pass validation; \<open>keep_last\<close> keeps, of the entries with
  one id, the last. \<open>store_valid\<close> holds of the rule lists that \<^verbatim>\<open>register\<close> builds:
  validated rules with pairwise different ids.
\<close>

definition accepted :: "jsval list \<Rightarrow> jsval list" where
  "accepted entries = [e \<leftarrow> entries. rule_level e = Str ''project'' \<and> valid_rule e]"

fun keep_last :: "jsval list \<Rightarrow> jsval list" where
  "keep_last [] = []"
| "keep_last (e # es) = (if rule_id e \<in> rule_id ` set es then keep_last es else e # keep_last es)"

definition store_valid :: "jsval list \<Rightarrow> bool" where
  "store_valid s = ((\<forall>r\<in>set s. valid_rule r) \<and> distinct (map rule_id s))"

definition example_rule :: "string \<Rightarrow> string \<Rightarrow> rat \<Rightarrow> string \<Rightarrow> jsval" where
  "example_rule rid level p type =
     Obj [(''id'', Str rid), (''name'', Str ''Open widgets''),
          (''priority'', Num (Fin p)), (''level'', Str level),
          (''condition'', Obj [(''action'', Str ''widget.open''), (''target'', Str ''*''),
                               (''when'', Str ''always'')]),
          (''effect'', Obj [(''type'', Str type), (''reason'', Str rid)]),
          (''enabled'', Bool True)]"

definition project_with :: "jsval list \<Rightarrow> jsval" where
  "project_with entries = Obj [(''id'', Str ''p1''), (''rules'', Arr entries)]"

definition load_twice :: "engine \<Rightarrow> jsval list \<Rightarrow> jsval list \<Rightarrow> exn + engine" where
  "load_twice st setA setB =
     andThen (loadProjectRules st (project_with setA)) (\<lambda>st1.
     loadProjectRules st1 (project_with setB))"

text \<open>
  \<open>store_ok\<close> adds to \<open>store_valid\<close> that no priority is \<open>NaN\<close> and that the list is in
  descending order of priority. \<open>register_all\<close> registers a list of rules one after the
  other.
\<close>

definition proper_priority :: "jsval \<Rightarrow> bool" where
  "proper_priority r = (case read_prop r ''priority'' of Num (Fin q) \<Rightarrow> True | _ \<Rightarrow> False)"

definition store_ok :: "jsval list \<Rightarrow> bool" where
  "store_ok s =
     (store_valid s \<and> (\<forall>r\<in>set s. proper_priority r) \<and>
      sorted_wrt (\<lambda>a b. priority_of b \<le> priority_of a) s)"


section \<open>Basic facts\<close>

lemma andThen_Inr [simp]: "andThen (Inr v) f = f v"
  by (simp add: andThen_def)

lemma andThen_Inl [simp]: "andThen (Inl e) f = Inl e"
  by (simp add: andThen_def)

lemma andThen_eq_Inr: "andThen m f = Inr y \<longleftrightarrow> (\<exists>v. m = Inr v \<and> f v = Inr y)"
  by (cases m) simp_all

lemma get_prop_Obj_plain:
  "k \<notin> set Object_prototype_keys \<Longrightarrow> get_prop (Obj kvs) k = Inr (read_prop (Obj kvs) k)"
  by (simp add: read_prop_def split: option.splits)

lemma plain_keys [simp]:
  "''id'' \<notin> set Object_prototype_keys" "''name'' \<notin> set Object_prototype_keys"
  "''priority'' \<notin> set Object_prototype_keys" "''level'' \<notin> set Object_prototype_keys"
  "''condition'' \<notin> set Object_prototype_keys" "''effect'' \<notin> set Object_prototype_keys"
  "''enabled'' \<notin> set Object_prototype_keys" "''action'' \<notin> set Object_prototype_keys"
  "''target'' \<notin> set Object_prototype_keys" "''context'' \<notin> set Object_prototype_keys"
  "''type'' \<notin> set Object_prototype_keys" "''rules'' \<notin> set Object_prototype_keys"
  "''when'' \<notin> set Object_prototype_keys" "''reason'' \<notin> set Object_prototype_keys"
  "''transform'' \<notin> set Object_prototype_keys" "''modifiedAction'' \<notin> set Object_prototype_keys"
  "''mode'' \<notin> set Object_prototype_keys" "''activeMode'' \<notin> set Object_prototype_keys"
  by (simp_all add: Object_prototype_keys_def)

lemma engine_keys_mem [simp]:
  "''id'' \<in> set engine_keys" "''priority'' \<in> set engine_keys" "''level'' \<in> set engine_keys"
  "''condition'' \<in> set engine_keys" "''effect'' \<in> set engine_keys"
  "''enabled'' \<in> set engine_keys" "''action'' \<in> set engine_keys"
  "''target'' \<in> set engine_keys" "''context'' \<in> set engine_keys"
  "''type'' \<in> set engine_keys" "''rules'' \<in> set engine_keys"
  "''when'' \<in> set engine_keys" "''reason'' \<in> set engine_keys"
  "''transform'' \<in> set engine_keys" "''modifiedAction'' \<in> set engine_keys"
  "''mode'' \<in> set engine_keys" "''activeMode'' \<in> set engine_keys"
  by (simp_all add: engine_keys_def)

text \<open>A property read by one of the engine's names fails only on null and undefined.\<close>

lemma get_prop_engine_key:
  assumes "k \<in> set engine_keys" "v \<noteq> Undefined" "v \<noteq> Null"
  shows "get_prop v k = Inr (read_prop v k)"
proof (cases v)
  case (Obj kvs)
  have "k \<notin> set Object_prototype_keys"
    using assms(1) by (auto simp: engine_keys_def Object_prototype_keys_def)
  then show ?thesis unfolding Obj by (rule get_prop_Obj_plain)
qed (use assms in \<open>simp_all add: read_prop_def\<close>)

lemma string_check:
  "is_nonempty_string v = (truthy v \<and> typeof v = ''string'')"
  by (cases v) (auto simp: is_nonempty_string_def)

lemma priority_check:
  "passes_priority_check v =
     (\<not> (case v of Num p \<Rightarrow> num_lt p (Fin 1) \<or> num_lt (Fin 1000) p | _ \<Rightarrow> True))"
  by (cases v) (auto simp: passes_priority_check_def)

lemma boolean_check: "is_boolean v = (typeof v = ''boolean'')"
  by (cases v) (auto simp: is_boolean_def)

lemma read_prop_non_object:
  assumes "\<not> truthy v \<or> typeof v \<noteq> ''object''" "k \<in> set engine_keys"
  shows "\<not> truthy v \<or> read_prop v k = Undefined"
  using assms by (cases v) (auto simp: read_prop_def)

lemma get_prop_object:
  assumes "\<not> (\<not> truthy v \<or> typeof v \<noteq> ''object'')" "k \<in> set engine_keys"
  shows "get_prop v k = Inr (read_prop v k)"
  using assms by (intro get_prop_engine_key) auto

lemma validateRule_Obj:
  "validateRule (Obj kvs) = Inr (accepts_with passes_priority_check (Obj kvs))"
proof -
  let ?r = "Obj kvs"
  let ?c = "read_prop ?r ''condition''"
  let ?e = "read_prop ?r ''effect''"
  have g: "\<And>k. k \<notin> set Object_prototype_keys \<Longrightarrow> get_prop ?r k = Inr (read_prop ?r k)"
    by (rule get_prop_Obj_plain)
  have c1: "\<not> truthy ?c \<or> typeof ?c \<noteq> ''object'' \<Longrightarrow>
              \<not> truthy ?c \<or> \<not> is_nonempty_string (read_prop ?c ''action'')"
    using read_prop_non_object[of ?c "''action''"] by (auto simp: string_check)
  have c2: "\<not> (\<not> truthy ?c \<or> typeof ?c \<noteq> ''object'') \<Longrightarrow>
              get_prop ?c ''action'' = Inr (read_prop ?c ''action'') \<and> truthy ?c"
    using get_prop_object[of ?c "''action''"] by auto
  have e1: "\<not> truthy ?e \<or> typeof ?e \<noteq> ''object'' \<Longrightarrow>
              \<not> array_includes [''allow'', ''deny'', ''modify''] (read_prop ?e ''type'')"
    by (cases ?e) (auto simp: read_prop_def array_includes_def)
  have e2: "\<not> (\<not> truthy ?e \<or> typeof ?e \<noteq> ''object'') \<Longrightarrow>
              get_prop ?e ''type'' = Inr (read_prop ?e ''type'')"
    using get_prop_object[of ?e "''type''"] by auto
  show ?thesis
  proof (cases "\<not> truthy ?c \<or> typeof ?c \<noteq> ''object''")
    case True
    from c1[OF True] True show ?thesis
      unfolding validateRule_def accepts_with_def
      by (auto simp add: g string_check priority_check boolean_check simp del: get_prop.simps)
  next
    case False
    note c = c2[OF False]
    show ?thesis
    proof (cases "\<not> truthy ?e \<or> typeof ?e \<noteq> ''object''")
      case True
      from e1[OF True] True False c show ?thesis
        unfolding validateRule_def accepts_with_def
        by (auto simp add: g string_check priority_check boolean_check simp del: get_prop.simps)
    next
      case False
      from e2[OF False] False \<open>\<not> (\<not> truthy ?c \<or> typeof ?c \<noteq> ''object'')\<close> c show ?thesis
        unfolding validateRule_def accepts_with_def
        by (auto simp add: g string_check priority_check boolean_check simp del: get_prop.simps)
    qed
  qed
qed

section \<open>Initialisation\<close>

lemma init_fresh_engine: "init fresh_engine = Inr booted"
  by code_simp

section \<open>Target patterns\<close>

text \<open>
  C6. The glob pattern \<^verbatim>\<open>widget.*\<close> matches the target \<^verbatim>\<open>widget.clock\<close> and does not match
  \<^verbatim>\<open>app.clock\<close>. Its \<^verbatim>\<open>.\<close> is not escaped when the pattern is turned into the
  regular expression \<^verbatim>\<open>^widget..*$\<close>: it stands for any character, so the pattern also
  matches the target \<^verbatim>\<open>widgetXclock\<close>, which has no literal \<^verbatim>\<open>.\<close> at that place.
\<close>

theorem matchesTarget_glob_dot_unescaped:
  "matchesTarget (Str ''widget.*'') (Str ''widget.clock'') = Inr True \<and>
   matchesTarget (Str ''widget.*'') (Str ''app.clock'') = Inr False \<and>
   matchesTarget (Str ''widget.*'') (Str ''widgetXclock'') = Inr True"
  by code_simp

section \<open>Malformed requests\<close>

text \<open>
  C5. The request \<^verbatim>\<open>{action: "constructor", target: "*"}\<close> names an action that is not in
  the taxonomy. The lookup \<^verbatim>\<open>this.ACTIONS["constructor"]\<close> finds the member inherited from
  \<^verbatim>\<open>Object.prototype\<close>, so the action is not rejected as unknown: with the built-in rules
  the evaluation runs on to the default denial, whose reason does not name the action.
\<close>

theorem evaluate_inherited_name_not_rejected:
  "evaluate env fresh_engine (Obj [(''action'', Str ''constructor''), (''target'', Str ''*'')])
     = Inr (booted, \<lparr>allowed = False, reason = Str ''No matching rule found'',
                     modifiedAction = None\<rparr>)"
  by code_simp

section \<open>Protection of system rules\<close>

text \<open>
  C3. Registering a rule under the id of the built-in system rule \<^verbatim>\<open>system-boot-allow\<close>
  is not refused: \<^verbatim>\<open>register\<close> returns \<^verbatim>\<open>true\<close>, the system rule is replaced, and
  \<^verbatim>\<open>evaluate({action: "system.boot"})\<close> is then denied by the replacement.
\<close>

theorem register_replaces_system_rule:
  "register booted boot_override
     = Inr (booted\<lparr>rules := [boot_override, system_log_allow, system_debug_allow,
                              system_dangerous_deny]\<rparr>, True) \<and>
   evaluate env (booted\<lparr>rules := [boot_override, system_log_allow, system_debug_allow,
                                  system_dangerous_deny]\<rparr>) (Obj [(''action'', Str ''system.boot'')])
     = Inr (booted\<lparr>rules := [boot_override, system_log_allow, system_debug_allow,
                              system_dangerous_deny]\<rparr>,
            \<lparr>allowed = False, reason = Str ''blocked'', modifiedAction = None\<rparr>)"
  by code_simp

section \<open>How evaluation decides\<close>

lemma get_prop_defined_Obj:
  assumes "get_prop v k = Inr x" "x \<noteq> Undefined"
  shows "\<exists>kvs. v = Obj kvs"
  using assms by (cases v) (auto split: if_splits)

lemma read_prop_defined_Obj:
  assumes "read_prop v k = x" "x \<noteq> Undefined"
  shows "\<exists>kvs. v = Obj kvs"
proof (cases "get_prop v k")
  case (Inl e)
  with assms show ?thesis by (simp add: read_prop_def)
next
  case (Inr y)
  with assms have "get_prop v k = Inr x" by (simp add: read_prop_def)
  with assms(2) show ?thesis using get_prop_defined_Obj by blast
qed


lemma filterM_append:
  "filterM p (xs @ ys) =
     andThen (filterM p xs) (\<lambda>as. andThen (filterM p ys) (\<lambda>bs. Inr (as @ bs)))"
proof (induction xs)
  case Nil
  show ?case by (cases "filterM p ys") simp_all
next
  case (Cons x xs)
  show ?case
  proof (cases "p x")
    case (Inl e)
    then show ?thesis by simp
  next
    case (Inr b)
    show ?thesis
      by (cases "filterM p xs"; cases "filterM p ys") (simp_all add: Inr Cons)
  qed
qed

lemma full_match_True:
  assumes "full_match a t c r = Inr True"
  shows "applicable a t c r = Inr True"
    and "\<exists>en cond. get_prop r ''enabled'' = Inr en \<and> truthy en \<and>
           get_prop r ''condition'' = Inr cond \<and> matchesCondition cond a t c = Inr True"
  using assms
  by (auto simp: full_match_def applicable_def andThen_eq_Inr split: if_splits)

lemma full_match_False:
  assumes "full_match a t c r = Inr False"
  shows "applicable a t c r = Inr False \<or>
         (applicable a t c r = Inr True \<and>
          (\<exists>en cond. get_prop r ''enabled'' = Inr en \<and> truthy en \<and>
             get_prop r ''condition'' = Inr cond \<and> matchesCondition cond a t c = Inr False))"
  using assms
  by (auto simp: full_match_def applicable_def andThen_eq_Inr split: if_splits)


text \<open>The loop passes over a picked-out rule whose full condition does not match.\<close>

lemma evaluate_loop_skip:
  assumes "get_prop r ''enabled'' = Inr en" "truthy en" "get_prop r ''condition'' = Inr cond"
    "matchesCondition cond a t c = Inr False"
  shows "evaluate_loop env (as @ r # bs) a t c request = evaluate_loop env (as @ bs) a t c request"
  using assms by (induction as) (simp_all cong: if_cong)

lemma decide_skip:
  assumes "full_match a t c r = Inr False"
  shows "andThen (filterM (applicable a t c) (xs @ r # ys)) (\<lambda>rs. evaluate_loop env rs a t c request)
       = andThen (filterM (applicable a t c) (xs @ ys)) (\<lambda>rs. evaluate_loop env rs a t c request)"
proof (cases "filterM (applicable a t c) xs")
  case (Inl e)
  then show ?thesis by (simp add: filterM_append)
next
  case as: (Inr as)
  show ?thesis
  proof (cases "filterM (applicable a t c) ys")
    case (Inl e)
    from full_match_False[OF assms] show ?thesis
      by (auto simp add: filterM_append as Inl)
  next
    case bs: (Inr bs)
    from full_match_False[OF assms] show ?thesis
      by (auto simp add: filterM_append as bs evaluate_loop_skip)
  qed
qed



lemma evaluate_unfold:
  assumes "initialized st" "get_prop request ''action'' = Inr (Str a)"
    "a \<in> set ACTIONS \<or> a = ''*''"
  shows "evaluate env st request =
      andThen (andThen (filterM (applicable (Str a) (request_target request) (request_context request)) (rules st))
                 (\<lambda>rs. evaluate_loop env rs (Str a) (request_target request) (request_context request) request))
        (\<lambda>d. Inr (st, d))"
proof -
  from assms(2) obtain kvs where r: "request = Obj kvs"
    using get_prop_defined_Obj by blast
  have ne: "a \<noteq> []" using assms(3) by (auto simp: ACTIONS_def)
  have t: "get_prop request ''target'' = Inr (read_prop request ''target'')"
    and c: "get_prop request ''context'' = Inr (read_prop request ''context'')"
    unfolding r by (rule get_prop_Obj_plain, simp)+
  have tr: "truthy request" by (simp add: r)
  have assoc: "\<And>m f g. andThen (andThen m f) g = andThen m (\<lambda>x. andThen (f x) g)"
    by (simp add: andThen_def split: sum.splits)
  show ?thesis
    unfolding evaluate_def getApplicableRules_def using assms(1,3) ne tr
    by (auto simp add: assms(2) t c request_target_def request_context_def assoc ACTIONS_truthy_def)
qed

text \<open>
  A rule that passes validation need not have a \<^verbatim>\<open>condition.target\<close>. Matching such a
  rule calls \<^verbatim>\<open>startsWith\<close> on \<^verbatim>\<open>undefined\<close>: the filter of \<^verbatim>\<open>_getApplicableRules\<close>
  raises a \<^verbatim>\<open>TypeError\<close>, and \<^verbatim>\<open>evaluate\<close> with it, also when a rule standing before
  it matches the request.
\<close>

lemma targetless_rule_raises:
  "valid_rule targetless_rule \<and>
   store_ok (rules booted @ [example_rule ''a'' ''widget'' 10 ''allow'', targetless_rule]) \<and>
   full_match (Str ''widget.open'') (Str ''*'') (Obj []) (example_rule ''a'' ''widget'' 10 ''allow'')
     = Inr True \<and>
   full_match (Str ''widget.open'') (Str ''*'') (Obj []) targetless_rule = Inl TypeError \<and>
   evaluate env
     (booted\<lparr>rules := rules booted @ [example_rule ''a'' ''widget'' 10 ''allow'',
                                      targetless_rule]\<rparr>)
     (widget_open []) = Inl TypeError"
  by code_simp

section \<open>Decisions\<close>


lemma evaluate_skips_rule:
  assumes "initialized st"
    and "get_prop request ''action'' = Inr (Str a)"
    and "a \<in> set ACTIONS \<or> a = ''*''"
    and "rules st = xs @ r # ys"
    and "full_match (Str a) (request_target request) (request_context request) r = Inr False"
  shows "evaluate env st request =
           andThen (evaluate env (st\<lparr>rules := xs @ ys\<rparr>) request) (\<lambda>res. Inr (st, snd res))"
proof -
  have i: "initialized (st\<lparr>rules := xs @ ys\<rparr>)" using assms(1) by simp
  have assoc: "\<And>m f g. andThen (andThen m f) g = andThen m (\<lambda>x. andThen (f x) g)"
    by (simp add: andThen_def split: sum.splits)
  show ?thesis
    unfolding evaluate_unfold[OF assms(1,2,3)] evaluate_unfold[OF i assms(2,3)]
    by (simp add: assms(4) decide_skip[OF assms(5)] assoc)
qed


subsection \<open>Default denial\<close>




subsection \<open>Modify effects\<close>





text \<open>
  The \<^verbatim>\<open>catch\<close> of \<^verbatim>\<open>_applyEffect\<close> hands the thrown value to the sink before it
  returns. When the sink is there and the value is an object whose own \<^verbatim>\<open>toString\<close> is no
  function, \<^verbatim>\<open>logError\<close> raises inside the handler, and the \<^verbatim>\<open>TypeError\<close> leaves
  \<^verbatim>\<open>evaluate\<close>. Without the sink the same transform gives the denial.
\<close>

lemma transform_error_escapes:
  "evaluate env_throws_unprintable (engine_with (modify_rule (Fun 0))) (widget_open [])
     = Inl TypeError"
  by code_simp

lemma transform_error_without_sink:
  "evaluate (env_throws_unprintable\<lparr>debugger := False\<rparr>) (engine_with (modify_rule (Fun 0)))
     (widget_open [])
     = Inr (engine_with (modify_rule (Fun 0)),
            \<lparr>allowed = False, reason = Str ''Rule transform failed'', modifiedAction = None\<rparr>)"
  by code_simp




section \<open>When-predicates\<close>

lemma matchesWhen_always: "matchesWhen (Str ''always'') context = Inr True"
  by (simp add: matchesWhen_def)

lemma matchesWhen_mode:
  assumes "context \<noteq> Undefined" "context \<noteq> Null"
  shows "matchesWhen (Str (''mode:'' @ v)) context
           = Inr (read_prop context ''mode'' = Str v \<or> read_prop context ''activeMode'' = Str v)"
proof -
  have g: "\<And>k. k \<in> set engine_keys \<Longrightarrow> get_prop context k = Inr (read_prop context k)"
    using assms by (intro get_prop_engine_key)
  show ?thesis by (simp add: matchesWhen_def startsWith_def g)
qed

lemma matchesWhen_other:
  assumes "w \<noteq> ''always''" "\<not> startsWith w ''mode:''"
  shows "matchesWhen (Str w) context = Inr False"
  using assms by (simp add: matchesWhen_def)

lemma failed_when_no_match:
  assumes "w \<noteq> []"
    and "read_prop (read_prop r ''condition'') ''when'' = Str w"
    and "matchesWhen (Str w) context = Inr False"
  shows "full_match action target context r \<noteq> Inr True"
proof
  assume "full_match action target context r = Inr True"
  from full_match_True(1)[OF this] obtain cond where
    c: "get_prop r ''condition'' = Inr cond"
    and m: "matches_action_target_when cond action target context = Inr True"
    by (auto simp: applicable_def andThen_eq_Inr split: if_splits)
  from c have rc: "read_prop r ''condition'' = cond" by (simp add: read_prop_def)
  from m obtain cw where w: "get_prop cond ''when'' = Inr cw"
    and r: "(if truthy cw \<and> cw \<noteq> Str ''always'' then matchesWhen cw context else Inr True) = Inr True"
    by (auto simp: matches_action_target_when_def andThen_eq_Inr split: if_splits)
  from w assms(2) rc have "cw = Str w" by (simp add: read_prop_def)
  moreover have "w \<noteq> ''always''" using assms(3) by (auto simp: matchesWhen_always)
  ultimately show False using r assms(1,3) by simp
qed

lemma evaluate_empty_when:
  "evaluate env_throws (engine_with (when_rule [])) (widget_open [])
     = Inr (engine_with (when_rule []),
            \<lparr>allowed = True, reason = Str ''ok'', modifiedAction = None\<rparr>)"
  by code_simp

text \<open>
  C7, as the claim states it, fails: the empty string is a predicate string that is neither
  \<^verbatim>\<open>always\<close> nor of the form \<^verbatim>\<open>mode:...\<close>, yet a rule whose \<^verbatim>\<open>when\<close> is the empty string
  is not passed over. The guard \<^verbatim>\<open>cond.when && ...\<close> treats it like an absent predicate, the
  rule matches, and the request is allowed.
\<close>

theorem empty_when_is_permissive:
  "[] \<noteq> ''always'' \<and> \<not> startsWith [] ''mode:'' \<and>
   read_prop (read_prop (when_rule []) ''condition'') ''when'' = Str [] \<and>
   evaluate env_throws (engine_with (when_rule [])) (widget_open [])
     = Inr (engine_with (when_rule []),
            \<lparr>allowed = True, reason = Str ''ok'', modifiedAction = None\<rparr>)"
proof -
  have "read_prop (read_prop (when_rule []) ''condition'') ''when'' = Str []" by code_simp
  then show ?thesis by (simp add: evaluate_empty_when startsWith_def)
qed

text \<open>
  C7, amended. The predicate \<^verbatim>\<open>always\<close> matches for every context. For every context other
  than \<^verbatim>\<open>null\<close> and \<^verbatim>\<open>undefined\<close>, \<^verbatim>\<open>mode:v\<close> matches if and only if the context's
  \<^verbatim>\<open>mode\<close> or \<^verbatim>\<open>activeMode\<close> equals \<^verbatim>\<open>v\<close>. Every other predicate string does not match
  and does not throw. A rule whose \<^verbatim>\<open>when\<close> is a non-empty string that does not match is
  never picked. If moreover matching that rule against the request raises no exception, an
  initialised engine decides a request whose action is in the taxonomy (or is \<^verbatim>\<open>*\<close>) as
  if the rule were not in the store: it falls through to the next rule or to the default
  denial. Nothing is said of a rule whose matching raises, as that of a rule without a
  \<^verbatim>\<open>condition.target\<close> does (\<open>targetless_rule_raises\<close>).
\<close>

theorem when_predicates:
  "matchesWhen (Str ''always'') context = Inr True \<and>
   (context \<noteq> Undefined \<and> context \<noteq> Null \<longrightarrow>
      matchesWhen (Str (''mode:'' @ v)) context
        = Inr (read_prop context ''mode'' = Str v \<or> read_prop context ''activeMode'' = Str v)) \<and>
   (w \<noteq> ''always'' \<and> \<not> startsWith w ''mode:'' \<longrightarrow> matchesWhen (Str w) context = Inr False) \<and>
   (w \<noteq> [] \<and> read_prop (read_prop r ''condition'') ''when'' = Str w \<and>
    matchesWhen (Str w) context = Inr False \<longrightarrow>
      full_match action target context r \<noteq> Inr True) \<and>
   (w \<noteq> [] \<and> read_prop (read_prop r ''condition'') ''when'' = Str w \<and>
    matchesWhen (Str w) (request_context request) = Inr False \<and>
    full_match (Str a) (request_target request) (request_context request) r = Inr b \<and>
    initialized st \<and> get_prop request ''action'' = Inr (Str a) \<and>
    (a \<in> set ACTIONS \<or> a = ''*'') \<and> rules st = xs @ r # ys \<longrightarrow>
      evaluate env st request
        = andThen (evaluate env (st\<lparr>rules := xs @ ys\<rparr>) request) (\<lambda>res. Inr (st, snd res)))"
proof (intro conjI impI; (elim conjE)?)
  show "matchesWhen (Str ''always'') context = Inr True"
    by (rule matchesWhen_always)
  show "matchesWhen (Str (''mode:'' @ v)) context
          = Inr (read_prop context ''mode'' = Str v \<or> read_prop context ''activeMode'' = Str v)"
    if "context \<noteq> Undefined" "context \<noteq> Null"
    using that by (rule matchesWhen_mode)
  show "matchesWhen (Str w) context = Inr False"
    if "w \<noteq> ''always''" "\<not> startsWith w ''mode:''"
    using that by (rule matchesWhen_other)
  show "full_match action target context r \<noteq> Inr True"
    if "w \<noteq> []" "read_prop (read_prop r ''condition'') ''when'' = Str w"
      "matchesWhen (Str w) context = Inr False"
    using that by (rule failed_when_no_match)
  show "evaluate env st request
          = andThen (evaluate env (st\<lparr>rules := xs @ ys\<rparr>) request) (\<lambda>res. Inr (st, snd res))"
    if "w \<noteq> []" "read_prop (read_prop r ''condition'') ''when'' = Str w"
      "matchesWhen (Str w) (request_context request) = Inr False"
      "full_match (Str a) (request_target request) (request_context request) r = Inr b"
      "initialized st" "get_prop request ''action'' = Inr (Str a)"
      "a \<in> set ACTIONS \<or> a = ''*''" "rules st = xs @ r # ys"
  proof -
    have "full_match (Str a) (request_target request) (request_context request) r \<noteq> Inr True"
      using that(1,2,3) by (rule failed_when_no_match)
    with that(4) have "full_match (Str a) (request_target request) (request_context request) r
                         = Inr False"
      by (cases b) simp_all
    with that(5,6,7,8) show ?thesis by (intro evaluate_skips_rule)
  qed
qed


theorem when_predicates_witness:
  "matchesWhen (Str ''always'') (Obj [(''mode'', Str ''runner'')]) = Inr True \<and>
   matchesWhen (Str ''mode:edit'') (Obj [(''mode'', Str ''edit'')]) = Inr True \<and>
   matchesWhen (Str ''mode:edit'') (Obj [(''mode'', Str ''runner'')]) = Inr False \<and>
   matchesWhen (Str ''weekdays'') (Obj [(''mode'', Str ''runner'')]) = Inr False \<and>
   full_match (Str ''widget.open'') (Str ''*'') (Obj [(''mode'', Str ''runner'')])
     (when_rule ''mode:edit'') \<noteq> Inr True \<and>
   evaluate env_throws (engine_with (when_rule ''mode:edit'')) (widget_open [(''mode'', Str ''runner'')])
     = Inr (engine_with (when_rule ''mode:edit''),
            \<lparr>allowed = False, reason = Str ''No matching rule found'', modifiedAction = None\<rparr>)"
proof -
  let ?runner = "Obj [(''mode'', Str ''runner'')]"
  let ?edit = "Obj [(''mode'', Str ''edit'')]"
  let ?r = "when_rule ''mode:edit''"
  let ?q = "widget_open [(''mode'', Str ''runner'')]"
  note w1 = when_predicates[THEN conjunct1]
  note w2 = when_predicates[THEN conjunct2, THEN conjunct1, rule_format]
  note w3 = when_predicates[THEN conjunct2, THEN conjunct2, THEN conjunct1, rule_format]
  note w4 = when_predicates[THEN conjunct2, THEN conjunct2, THEN conjunct2, THEN conjunct1,
      rule_format]
  note w5 = when_predicates[THEN conjunct2, THEN conjunct2, THEN conjunct2, THEN conjunct2,
      rule_format]
  have 1: "matchesWhen (Str ''always'') ?runner = Inr True"
    by (rule w1)
  have "matchesWhen (Str (''mode:'' @ ''edit'')) ?edit
          = Inr (read_prop ?edit ''mode'' = Str ''edit'' \<or> read_prop ?edit ''activeMode'' = Str ''edit'')"
    by (rule w2) simp
  then have 2: "matchesWhen (Str ''mode:edit'') ?edit = Inr True"
    by (simp add: read_prop_def)
  have "matchesWhen (Str (''mode:'' @ ''edit'')) ?runner
          = Inr (read_prop ?runner ''mode'' = Str ''edit'' \<or> read_prop ?runner ''activeMode'' = Str ''edit'')"
    by (rule w2) simp
  then have 3: "matchesWhen (Str ''mode:edit'') ?runner = Inr False"
    by (simp add: read_prop_def)
  have 4: "matchesWhen (Str ''weekdays'') ?runner = Inr False"
    by (rule w3) (simp add: startsWith_def)
  have c: "read_prop (read_prop ?r ''condition'') ''when'' = Str ''mode:edit''" by code_simp
  have 5: "full_match (Str ''widget.open'') (Str ''*'') ?runner ?r \<noteq> Inr True"
    by (rule w4[where w = "''mode:edit''"]) (simp add: c 3)
  have i: "initialized (engine_with ?r)" by code_simp
  have q: "get_prop ?q ''action'' = Inr (Str ''widget.open'')" by code_simp
  have a: "''widget.open'' \<in> set ACTIONS \<or> ''widget.open'' = ''*''" by code_simp
  have s: "rules (engine_with ?r) = rules booted @ ?r # []" by code_simp
  have f: "full_match (Str ''widget.open'') (request_target ?q) (request_context ?q) ?r = Inr False"
    by code_simp
  have n: "''mode:edit'' \<noteq> []" by simp
  have m: "matchesWhen (Str ''mode:edit'') (request_context ?q) = Inr False" by code_simp
  have e: "evaluate env_throws (engine_with ?r\<lparr>rules := rules booted\<rparr>) ?q
             = Inr (engine_with ?r\<lparr>rules := rules booted\<rparr>,
                    \<lparr>allowed = False, reason = Str ''No matching rule found'',
                     modifiedAction = None\<rparr>)"
    by code_simp
  have "evaluate env_throws (engine_with ?r) ?q
          = andThen (evaluate env_throws (engine_with ?r\<lparr>rules := rules booted @ []\<rparr>) ?q)
              (\<lambda>res. Inr (engine_with ?r, snd res))"
    by (rule w5[where a = "''widget.open''" and r = ?r and w = "''mode:edit''" and b = False])
       (intro conjI n c m f i q a s)
  then have 6: "evaluate env_throws (engine_with ?r) ?q
     = Inr (engine_with ?r,
            \<lparr>allowed = False, reason = Str ''No matching rule found'', modifiedAction = None\<rparr>)"
    by (simp add: e)
  from 1 2 3 4 5 6 show ?thesis by (intro conjI)
qed

section \<open>Registration\<close>

lemma findIndex_total:
  assumes "\<forall>x\<in>set xs. p x = Inr (P x)"
  shows "findIndex p xs = Inr (first_index P xs)"
  using assms by (induction xs) simp_all

lemma first_index_None: "first_index P xs = None \<longleftrightarrow> (\<forall>x\<in>set xs. \<not> P x)"
  by (induction xs) auto

lemma first_index_Some:
  assumes "first_index P xs = Some i"
  shows "i < length xs \<and> P (xs ! i) \<and> (\<forall>j<i. \<not> P (xs ! j))"
  using assms
proof (induction xs arbitrary: i)
  case Nil
  then show ?case by simp
next
  case (Cons x xs)
  show ?case
  proof (cases "P x")
    case True
    with Cons.prems show ?thesis by simp
  next
    case False
    with Cons.prems obtain k where k: "first_index P xs = Some k" "i = Suc k" by auto
    from Cons.IH[OF k(1)] False k(2) show ?thesis
      by (auto simp: nth_Cons split: nat.splits)
  qed
qed

lemma valid_rule_Obj:
  assumes "valid_rule r"
  shows "\<exists>kvs. r = Obj kvs"
  using assms by (cases r) (auto simp: valid_rule_def validateRule_def)

lemma valid_rule_accepts:
  "valid_rule r \<longleftrightarrow> (\<exists>kvs. r = Obj kvs) \<and> accepts_with passes_priority_check r"
proof
  assume v: "valid_rule r"
  then obtain kvs where "r = Obj kvs" using valid_rule_Obj by blast
  with v show "(\<exists>kvs. r = Obj kvs) \<and> accepts_with passes_priority_check r"
    by (simp add: valid_rule_def validateRule_Obj)
next
  assume "(\<exists>kvs. r = Obj kvs) \<and> accepts_with passes_priority_check r"
  then show "valid_rule r"
    by (auto simp: valid_rule_def validateRule_Obj)
qed

lemma valid_rule_get_prop:
  assumes "valid_rule r" "k \<notin> set Object_prototype_keys"
  shows "get_prop r k = Inr (read_prop r k)"
  using valid_rule_Obj[OF assms(1)] get_prop_Obj_plain[OF assms(2)] by auto

lemma valid_rule_id:
  assumes "valid_rule r"
  shows "\<exists>i. rule_id r = Str i \<and> i \<noteq> []"
  using assms unfolding valid_rule_accepts accepts_with_def rule_id_def
  by (cases "read_prop r ''id''") (auto simp: is_nonempty_string_def)

lemma valid_rule_priority:
  assumes "valid_rule r"
  shows "\<exists>p. read_prop r ''priority'' = Num p \<and> \<not> num_lt p (Fin 1) \<and> \<not> num_lt (Fin 1000) p"
  using assms unfolding valid_rule_accepts accepts_with_def
  by (cases "read_prop r ''priority''") (auto simp: passes_priority_check_def)

lemma has_id_valid:
  assumes "valid_rule r"
  shows "has_id rid r = Inr (rule_id r = rid)"
proof -
  from valid_rule_id[OF assms] obtain i where "rule_id r = Str i" by blast
  then show ?thesis
    by (simp add: has_id_def valid_rule_get_prop[OF assms] rule_id_def)
qed

lemma by_priority_valid:
  assumes "valid_rule a" "valid_rule b"
  shows "\<exists>pa pb. read_prop a ''priority'' = Num pa \<and> read_prop b ''priority'' = Num pb \<and>
           by_priority a b = Inr (num_sub pb pa)"
  using valid_rule_priority[OF assms(1)] valid_rule_priority[OF assms(2)]
  by (auto simp: by_priority_def valid_rule_get_prop[OF assms(1)] valid_rule_get_prop[OF assms(2)])

lemma insort_by_permutes:
  assumes "valid_rule x" "\<forall>y\<in>set ys. valid_rule y"
  shows "\<exists>zs. insort_by by_priority x ys = Inr zs \<and> mset zs = add_mset x (mset ys)"
  using assms(2)
proof (induction ys)
  case Nil
  show ?case by simp
next
  case (Cons y ys)
  then obtain zs where zs: "insort_by by_priority x ys = Inr zs" "mset zs = add_mset x (mset ys)"
    by auto
  from by_priority_valid[OF assms(1), of y] Cons.prems obtain v where "by_priority x y = Inr v"
    by auto
  then show ?case using zs by auto
qed

lemma sort_by_permutes:
  assumes "\<forall>x\<in>set xs. valid_rule x"
  shows "\<exists>ys. sort_by by_priority xs = Inr ys \<and> mset ys = mset xs"
  using assms
proof (induction xs)
  case Nil
  show ?case by simp
next
  case (Cons x xs)
  then obtain ys where ys: "sort_by by_priority xs = Inr ys" "mset ys = mset xs" by auto
  then have "\<forall>y\<in>set ys. valid_rule y"
    using Cons.prems by (metis list.set_intros(2) mset_eq_setD)
  from insort_by_permutes[OF _ this, of x] Cons.prems ys show ?case by auto
qed

lemma set_placed:
  "set (placed s r) \<subseteq> insert r (set s)"
  unfolding placed_def
  by (auto split: option.splits dest: set_update_subset_insert[THEN subsetD])

lemma register_valid:
  assumes "\<forall>x\<in>set (rules st). valid_rule x" "valid_rule r"
  shows "\<exists>ys. register st r = Inr (st\<lparr>rules := ys\<rparr>, True) \<and>
               sort_by by_priority (placed (rules st) r) = Inr ys \<and>
               mset ys = mset (placed (rules st) r)"
proof -
  from valid_rule_Obj[OF assms(2)] have t: "truthy r" by auto
  from valid_rule_id[OF assms(2)] obtain i where i: "rule_id r = Str i" "i \<noteq> []" by blast
  have g: "get_prop r ''id'' = Inr (rule_id r)"
    by (simp add: valid_rule_get_prop[OF assms(2)] rule_id_def)
  have f: "findIndex (has_id (rule_id r)) (rules st)
             = Inr (first_index (\<lambda>x. rule_id x = rule_id r) (rules st))"
    by (rule findIndex_total) (use assms(1) has_id_valid in auto)
  have "\<forall>x\<in>set (placed (rules st) r). valid_rule x"
    using set_placed[of "rules st" r] assms by auto
  from sort_by_permutes[OF this] obtain ys where
    ys: "sort_by by_priority (placed (rules st) r) = Inr ys" "mset ys = mset (placed (rules st) r)"
    by blast
  have "register st r = Inr (st\<lparr>rules := ys\<rparr>, True)"
    unfolding register_def using t i assms(2) ys(1)
    by (simp add: g f[unfolded i(1)] valid_rule_def placed_def)
  with ys show ?thesis by blast
qed

lemma register_invalid:
  assumes "\<not> valid_rule r"
  shows "register st r = Inr (st, False)"
proof (cases r)
  case (Obj kvs)
  with assms have "validateRule r = Inr False"
    by (simp add: valid_rule_def validateRule_Obj)
  then show ?thesis
    unfolding register_def
    by (simp add: Obj get_prop_Obj_plain del: get_prop.simps cong: if_cong)
qed (simp_all add: register_def)

lemma priority_checks_agree:
  assumes "v \<noteq> Num NaN"
  shows "passes_priority_check v = is_number_in_1_1000 v"
proof (cases v)
  case (Num p)
  with assms show ?thesis
    by (cases p) (auto simp: passes_priority_check_def is_number_in_1_1000_def)
qed (simp_all add: passes_priority_check_def is_number_in_1_1000_def)

lemma accepts_non_object:
  assumes "\<forall>kvs. r \<noteq> Obj kvs"
  shows "\<not> accepts_with ok r"
  using assms by (cases r) (simp_all add: accepts_with_def read_prop_def is_nonempty_string_def)

lemma register_NaN_priority:
  "map_sum id snd (register booted (priority_rule ''open-widgets'' NaN)) = Inr True"
  by code_simp

lemma register_fractional_priority:
  "map_sum id snd (register booted (priority_rule ''open-widgets'' (Fin (3 / 2)))) = Inr True"
  by code_simp

text \<open>
  C8, as the claim states it, fails: a candidate whose priority is \<open>1.5\<close> is not an integer
  in [1,1000], so the claim's criterion rejects it, yet \<^verbatim>\<open>register\<close> accepts it.
  The validator tests \<^verbatim>\<open>typeof rule.priority !== 'number'\<close> and the two bounds, nothing
  more.
\<close>

theorem register_accepts_fractional_priority:
  "map_sum id snd (register booted (priority_rule ''open-widgets'' (Fin (3 / 2)))) = Inr True \<and>
   \<not> accepts_with is_integer_in_1_1000 (priority_rule ''open-widgets'' (Fin (3 / 2)))"
proof -
  have "\<not> accepts_with is_integer_in_1_1000 (priority_rule ''open-widgets'' (Fin (3 / 2)))"
    by code_simp
  then show ?thesis by (simp add: register_fractional_priority)
qed

text \<open>
  C8, amended. On a store of validated rules, and for a candidate whose priority is not
  \<open>NaN\<close>, \<^verbatim>\<open>register\<close> accepts the candidate (returns \<^verbatim>\<open>true\<close>) if and only if its id and
  name are non-empty strings, its priority is a number in [1,1000], its level is in the
  hierarchy, its condition is present with a non-empty action pattern, its
  \<^verbatim>\<open>effect.type\<close> is one of allow, deny, modify, and \<^verbatim>\<open>enabled\<close> is a boolean; otherwise
  \<^verbatim>\<open>register\<close> returns \<^verbatim>\<open>false\<close> and the engine is unchanged. In neither case does it
  throw.
\<close>

theorem register_accepts_iff:
  assumes "\<forall>r\<in>set (rules st). valid_rule r"
    and "read_prop rule ''priority'' \<noteq> Num NaN"
  shows "(accepts_with is_number_in_1_1000 rule \<longrightarrow> (\<exists>st'. register st rule = Inr (st', True))) \<and>
         (\<not> accepts_with is_number_in_1_1000 rule \<longrightarrow> register st rule = Inr (st, False))"
proof -
  have eq: "accepts_with is_number_in_1_1000 rule = accepts_with passes_priority_check rule"
    by (simp add: accepts_with_def priority_checks_agree[OF assms(2)])
  have v: "valid_rule rule \<longleftrightarrow> accepts_with is_number_in_1_1000 rule"
    unfolding eq valid_rule_accepts using accepts_non_object by blast
  show ?thesis
    using register_valid[OF assms(1), of rule] register_invalid[of rule st] v by blast
qed

theorem register_accepts_iff_witness:
  "(\<exists>st'. register booted (priority_rule ''open-widgets'' (Fin 10)) = Inr (st', True)) \<and>
   register booted (priority_rule ''open-widgets'' (Fin 2000)) = Inr (booted, False)"
proof -
  have s: "\<forall>r\<in>set (rules booted). valid_rule r" by code_simp
  have p1: "read_prop (priority_rule ''open-widgets'' (Fin 10)) ''priority'' \<noteq> Num NaN" by code_simp
  have p2: "read_prop (priority_rule ''open-widgets'' (Fin 2000)) ''priority'' \<noteq> Num NaN" by code_simp
  have a1: "accepts_with is_number_in_1_1000 (priority_rule ''open-widgets'' (Fin 10))" by code_simp
  have a2: "\<not> accepts_with is_number_in_1_1000 (priority_rule ''open-widgets'' (Fin 2000))" by code_simp
  from register_accepts_iff[OF s p1] a1 register_accepts_iff[OF s p2] a2 show ?thesis by blast
qed

section \<open>Project rules\<close>

lemma forEach_register_filter:
  assumes "\<forall>e\<in>set entries. e \<noteq> Undefined \<and> e \<noteq> Null"
  shows "forEach_register st entries
           = forEach_register st [e \<leftarrow> entries. rule_level e = Str ''project'']"
  using assms
proof (induction entries arbitrary: st)
  case Nil
  show ?case by simp
next
  case (Cons e es)
  then have "get_prop e ''level'' = Inr (rule_level e)"
    unfolding rule_level_def by (intro get_prop_engine_key) simp_all
  with Cons show ?case by (simp cong: if_cong)
qed

lemma sort_by_mset:
  "sort_by cmp xs = Inr ys \<Longrightarrow> mset ys = mset xs"
proof (induction xs arbitrary: ys)
  case Nil
  then show ?case by simp
next
  case (Cons x xs)
  have ins: "\<And>zs ws. insort_by cmp x zs = Inr ws \<Longrightarrow> mset ws = add_mset x (mset zs)"
  proof -
    fix zs ws show "insort_by cmp x zs = Inr ws \<Longrightarrow> mset ws = add_mset x (mset zs)"
      by (induction zs arbitrary: ws) (auto simp: andThen_eq_Inr split: if_splits)
  qed
  from Cons.prems obtain zs where "sort_by cmp xs = Inr zs" "insort_by cmp x zs = Inr ys"
    by (auto simp: andThen_eq_Inr)
  with Cons.IH ins show ?case by fastforce
qed

lemma register_inserts_only:
  assumes "register st r = Inr (st', b)"
  shows "set (rules st') \<subseteq> insert r (set (rules st))"
proof (cases b)
  case False
  with assms have "st' = st"
    by (auto simp: register_def andThen_eq_Inr split: if_splits)
  then show ?thesis by auto
next
  case True
  with assms obtain idx ys where
    "sort_by by_priority (case idx of Some i \<Rightarrow> (rules st)[i := r] | None \<Rightarrow> rules st @ [r]) = Inr ys"
    "st' = st\<lparr>rules := ys\<rparr>"
    by (auto simp: register_def andThen_eq_Inr split: if_splits)
  then show ?thesis
    using sort_by_mset[THEN mset_eq_setD] set_update_subset_insert[of "rules st" _ r]
    by (cases idx) fastforce+
qed

lemma forEach_register_inserts_only:
  assumes "forEach_register st entries = Inr st'"
  shows "\<forall>r\<in>set (rules st'). r \<in> set (rules st) \<or> (r \<in> set entries \<and> rule_level r = Str ''project'')"
  using assms
proof (induction entries arbitrary: st)
  case Nil
  then show ?case by simp
next
  case (Cons e es)
  from Cons.prems obtain l where l: "get_prop e ''level'' = Inr l"
    by (auto simp: andThen_eq_Inr)
  then have rl: "rule_level e = l" by (simp add: rule_level_def read_prop_def)
  show ?case
  proof (cases "l = Str ''project''")
    case True
    with Cons.prems l obtain res where res: "register st e = Inr res"
      "forEach_register (fst res) es = Inr st'"
      by (auto simp: andThen_eq_Inr)
    from register_inserts_only[of st e "fst res" "snd res"] res(1)
    have "set (rules (fst res)) \<subseteq> insert e (set (rules st))" by simp
    with Cons.IH[OF res(2)] True rl show ?thesis by auto
  next
    case False
    with Cons.prems l have "forEach_register st es = Inr st'" by simp
    from Cons.IH[OF this] show ?thesis by auto
  qed
qed

lemma filterM_subset:
  "filterM p xs = Inr ys \<Longrightarrow> set ys \<subseteq> set xs"
  by (induction xs arbitrary: ys) (auto simp: andThen_eq_Inr split: if_splits)

lemma loadProjectRules_Arr:
  assumes "get_prop project ''rules'' = Inr (Arr entries)"
  shows "loadProjectRules st project =
           andThen (filterM (level_is_not ''project'') (rules st))
             (\<lambda>kept. forEach_register (st\<lparr>rules := kept\<rparr>) entries)"
proof -
  from assms have "truthy project" using get_prop_defined_Obj by fastforce
  then show ?thesis by (simp add: loadProjectRules_def assms)
qed

text \<open>
  C10. \<^verbatim>\<open>loadProjectRules\<close> leaves the engine unchanged when its argument is \<^verbatim>\<open>null\<close> or
  \<^verbatim>\<open>undefined\<close> or an object without a \<^verbatim>\<open>rules\<close> field; in particular no project-level
  rule is evicted. Given a rules array (with no \<^verbatim>\<open>null\<close> or \<^verbatim>\<open>undefined\<close> entry), the
  entries whose level is not exactly \<^verbatim>\<open>project\<close> are ignored: the call does what it does
  on the array without them. Whatever the array, a rule found in the store afterwards was
  there before or is an entry of level \<^verbatim>\<open>project\<close>.
\<close>

theorem loadProjectRules_ignores:
  "loadProjectRules st Null = Inr st \<and>
   loadProjectRules st Undefined = Inr st \<and>
   (map_of kvs ''rules'' = None \<longrightarrow> loadProjectRules st (Obj kvs) = Inr st) \<and>
   (get_prop project ''rules'' = Inr (Arr entries) \<and>
    (\<forall>e\<in>set entries. e \<noteq> Undefined \<and> e \<noteq> Null) \<longrightarrow>
      loadProjectRules st project
        = loadProjectRules st
            (Obj [(''rules'', Arr [e \<leftarrow> entries. rule_level e = Str ''project''])])) \<and>
   (get_prop project ''rules'' = Inr (Arr entries) \<and> loadProjectRules st project = Inr st' \<longrightarrow>
      (\<forall>r\<in>set (rules st').
         r \<in> set (rules st) \<or> (r \<in> set entries \<and> rule_level r = Str ''project'')))"
proof (intro conjI impI; (elim conjE)?)
  show "loadProjectRules st Null = Inr st" by (simp add: loadProjectRules_def)
  show "loadProjectRules st Undefined = Inr st" by (simp add: loadProjectRules_def)
  show "loadProjectRules st (Obj kvs) = Inr st" if "map_of kvs ''rules'' = None"
    using that by (simp add: loadProjectRules_def)
  show "loadProjectRules st project
        = loadProjectRules st
            (Obj [(''rules'', Arr [e \<leftarrow> entries. rule_level e = Str ''project''])])"
    if "get_prop project ''rules'' = Inr (Arr entries)"
      "\<forall>e\<in>set entries. e \<noteq> Undefined \<and> e \<noteq> Null"
  proof -
    have "get_prop (Obj [(''rules'', Arr [e \<leftarrow> entries. rule_level e = Str ''project''])]) ''rules''
            = Inr (Arr [e \<leftarrow> entries. rule_level e = Str ''project''])"
      by simp
    from loadProjectRules_Arr[OF this] loadProjectRules_Arr[OF that(1)]
      forEach_register_filter[OF that(2)]
    show ?thesis by simp
  qed
  show "\<forall>r\<in>set (rules st').
         r \<in> set (rules st) \<or> (r \<in> set entries \<and> rule_level r = Str ''project'')"
    if "get_prop project ''rules'' = Inr (Arr entries)" "loadProjectRules st project = Inr st'"
  proof -
    from that obtain kept where k: "filterM (level_is_not ''project'') (rules st) = Inr kept"
      "forEach_register (st\<lparr>rules := kept\<rparr>) entries = Inr st'"
      by (auto simp: loadProjectRules_Arr andThen_eq_Inr)
    from forEach_register_inserts_only[OF k(2)] filterM_subset[OF k(1)] show ?thesis by auto
  qed
qed

theorem loadProjectRules_ignores_witness:
  "loadProjectRules booted
     (project_with [example_rule ''a'' ''widget'' 10 ''allow'', example_rule ''b'' ''project'' 20 ''deny''])
   = loadProjectRules booted (Obj [(''rules'', Arr [example_rule ''b'' ''project'' 20 ''deny''])]) \<and>
   loadProjectRules booted (Obj [(''id'', Str ''p1'')]) = Inr booted \<and>
   rule_level (example_rule ''b'' ''project'' 20 ''deny'') = Str ''project''"
proof -
  let ?a = "example_rule ''a'' ''widget'' 10 ''allow''"
  let ?b = "example_rule ''b'' ''project'' 20 ''deny''"
  let ?st' = "booted\<lparr>rules := rules booted @ [?b]\<rparr>"
  note w3 = loadProjectRules_ignores[THEN conjunct2, THEN conjunct2, THEN conjunct1, rule_format]
  note w4 = loadProjectRules_ignores[THEN conjunct2, THEN conjunct2, THEN conjunct2,
      THEN conjunct1, rule_format]
  note w5 = loadProjectRules_ignores[THEN conjunct2, THEN conjunct2, THEN conjunct2,
      THEN conjunct2, THEN mp]
  have g: "get_prop (project_with [?a, ?b]) ''rules'' = Inr (Arr [?a, ?b])" by code_simp
  have n: "\<forall>e\<in>set [?a, ?b]. e \<noteq> Undefined \<and> e \<noteq> Null" by code_simp
  have f: "[e \<leftarrow> [?a, ?b]. rule_level e = Str ''project''] = [?b]" by code_simp
  have 1: "loadProjectRules booted (project_with [?a, ?b])
             = loadProjectRules booted (Obj [(''rules'', Arr [?b])])"
    using w4[of "project_with [?a, ?b]" "[?a, ?b]" booted] g n f by simp
  have 2: "loadProjectRules booted (Obj [(''id'', Str ''p1'')]) = Inr booted"
    by (rule w3) simp
  have l: "loadProjectRules booted (project_with [?a, ?b]) = Inr ?st'" by code_simp
  have "\<forall>r\<in>set (rules ?st'). r \<in> set (rules booted) \<or> (r \<in> set [?a, ?b] \<and> rule_level r = Str ''project'')"
    by (rule w5[of "project_with [?a, ?b]"]) (intro conjI g l)
  moreover have "?b \<in> set (rules ?st')" by simp
  moreover have "?b \<notin> set (rules booted)" by code_simp
  ultimately have 3: "rule_level ?b = Str ''project''" by blast
  from 1 2 3 show ?thesis by (intro conjI)
qed


lemma placed_Nil: "placed [] r = [r]"
  by (simp add: placed_def)

lemma placed_Cons:
  "placed (x # xs) r = (if rule_id x = rule_id r then r # xs else x # placed xs r)"
  by (cases "first_index (\<lambda>x. rule_id x = rule_id r) xs") (simp_all add: placed_def)


lemma placed_store_valid:
  assumes "distinct (map rule_id s)"
  shows "set (placed s r) = insert r {x \<in> set s. rule_id x \<noteq> rule_id r} \<and>
         distinct (map rule_id (placed s r))"
  using assms
proof (induction s)
  case Nil
  show ?case by (simp add: placed_Nil)
next
  case (Cons x xs)
  show ?case
  proof (cases "rule_id x = rule_id r")
    case True
    with Cons.prems have "rule_id r \<notin> rule_id ` set xs" by simp
    then have "\<forall>y\<in>set xs. rule_id y \<noteq> rule_id r" by (metis imageI)
    with True Cons.prems show ?thesis by (auto simp: placed_Cons)
  next
    case False
    with Cons show ?thesis by (auto simp: placed_Cons)
  qed
qed

lemma register_store_valid:
  assumes "store_valid (rules st)" "valid_rule r"
  shows "\<exists>st'. register st r = Inr (st', True) \<and> store_valid (rules st') \<and>
           set (rules st') = insert r {x \<in> set (rules st). rule_id x \<noteq> rule_id r}"
proof -
  from assms(1) have v: "\<forall>x\<in>set (rules st). valid_rule x" by (simp add: store_valid_def)
  from assms(1) have "distinct (map rule_id (rules st))" by (simp add: store_valid_def)
  note p = placed_store_valid[OF this, of r]
  from register_valid[OF v assms(2)] obtain ys where
    ys: "register st r = Inr (st\<lparr>rules := ys\<rparr>, True)" "mset ys = mset (placed (rules st) r)"
    by blast
  from ys(2) have s: "set ys = set (placed (rules st) r)" by (rule mset_eq_setD)
  from ys(2) have "mset (map rule_id ys) = mset (map rule_id (placed (rules st) r))" by simp
  then have d: "distinct (map rule_id ys)"
    using p mset_eq_imp_distinct_iff by blast
  have "store_valid ys"
    using s d v assms(2) p by (auto simp: store_valid_def)
  with ys(1) s p show ?thesis by auto
qed

lemma forEach_register_store_valid:
  assumes "store_valid (rules st)" "\<forall>e\<in>set entries. e \<noteq> Undefined \<and> e \<noteq> Null"
  shows "\<exists>st'. forEach_register st entries = Inr st' \<and> store_valid (rules st') \<and>
           set (rules st') =
             {x \<in> set (rules st). rule_id x \<notin> rule_id ` set (accepted entries)}
             \<union> set (keep_last (accepted entries))"
  using assms
proof (induction entries arbitrary: st)
  case Nil
  then show ?case by (simp add: accepted_def)
next
  case (Cons e es)
  then have l: "get_prop e ''level'' = Inr (rule_level e)"
    unfolding rule_level_def by (intro get_prop_engine_key) simp_all
  from Cons.prems have es: "\<forall>e\<in>set es. e \<noteq> Undefined \<and> e \<noteq> Null" by simp
  show ?case
  proof (cases "rule_level e = Str ''project'' \<and> valid_rule e")
    case True
    from register_store_valid[OF Cons.prems(1), of e] True obtain st1 where
      st1: "register st e = Inr (st1, True)" "store_valid (rules st1)"
      "set (rules st1) = insert e {x \<in> set (rules st). rule_id x \<noteq> rule_id e}" by blast
    from Cons.IH[OF st1(2) es] obtain st' where
      st': "forEach_register st1 es = Inr st'" "store_valid (rules st')"
      "set (rules st') = {x \<in> set (rules st1). rule_id x \<notin> rule_id ` set (accepted es)}
                           \<union> set (keep_last (accepted es))" by blast
    have a: "accepted (e # es) = e # accepted es" using True by (simp add: accepted_def)
    have "forEach_register st (e # es) = Inr st'" using True l st1(1) st'(1) by simp
    moreover have "set (rules st') =
        {x \<in> set (rules st). rule_id x \<notin> rule_id ` set (accepted (e # es))}
        \<union> set (keep_last (accepted (e # es)))"
      unfolding st'(3) st1(3) a by auto
    ultimately show ?thesis using st'(2) by blast
  next
    case False
    have a: "accepted (e # es) = accepted es" using False by (simp add: accepted_def)
    have "forEach_register st (e # es) = forEach_register st es"
    proof (cases "rule_level e = Str ''project''")
      case True
      with False have "register st e = Inr (st, False)" by (simp add: register_invalid)
      with True l show ?thesis by simp
    next
      case False
      with l show ?thesis by simp
    qed
    with Cons.IH[OF Cons.prems(1) es] a show ?thesis by simp
  qed
qed

lemma level_filter_valid:
  assumes "\<forall>x\<in>set s. valid_rule x"
  shows "filterM (level_is_not l) s = Inr [x \<leftarrow> s. rule_level x \<noteq> Str l]"
    and "filterM (level_is l) s = Inr [x \<leftarrow> s. rule_level x = Str l]"
proof -
  have g: "\<And>x. x \<in> set s \<Longrightarrow> get_prop x ''level'' = Inr (rule_level x)"
    using assms by (simp add: valid_rule_get_prop rule_level_def)
  show "filterM (level_is_not l) s = Inr [x \<leftarrow> s. rule_level x \<noteq> Str l]"
    using g by (induction s) (simp_all add: level_is_not_def)
  show "filterM (level_is l) s = Inr [x \<leftarrow> s. rule_level x = Str l]"
    using g by (induction s) (simp_all add: level_is_def)
qed

lemma store_valid_filter: "store_valid s \<Longrightarrow> store_valid (filter P s)"
  by (auto simp: store_valid_def distinct_map_filter)

lemma keep_last_subset: "set (keep_last es) \<subseteq> set es"
  by (induction es) auto

lemma accepted_project: "e \<in> set (accepted es) \<Longrightarrow> rule_level e = Str ''project''"
  by (simp add: accepted_def)

lemma loadProjectRules_store_valid:
  assumes "store_valid (rules st)" "get_prop project ''rules'' = Inr (Arr entries)"
    "\<forall>e\<in>set entries. e \<noteq> Undefined \<and> e \<noteq> Null"
  shows "\<exists>st'. loadProjectRules st project = Inr st' \<and> store_valid (rules st') \<and>
           {x \<in> set (rules st'). rule_level x = Str ''project''} = set (keep_last (accepted entries)) \<and>
           {x \<in> set (rules st'). rule_level x \<noteq> Str ''project''} =
             {x \<in> set (rules st). rule_level x \<noteq> Str ''project'' \<and>
                                   rule_id x \<notin> rule_id ` set (accepted entries)}"
proof -
  let ?kept = "[x \<leftarrow> rules st. rule_level x \<noteq> Str ''project'']"
  from assms(1) have v: "\<forall>x\<in>set (rules st). valid_rule x" by (simp add: store_valid_def)
  have k: "store_valid (rules (st\<lparr>rules := ?kept\<rparr>))"
    using store_valid_filter[OF assms(1)] by simp
  from forEach_register_store_valid[OF k assms(3)] obtain st' where
    st': "forEach_register (st\<lparr>rules := ?kept\<rparr>) entries = Inr st'" "store_valid (rules st')"
    "set (rules st') = {x \<in> set ?kept. rule_id x \<notin> rule_id ` set (accepted entries)}
                         \<union> set (keep_last (accepted entries))"
    by auto
  have "loadProjectRules st project = Inr st'"
    by (simp add: loadProjectRules_Arr[OF assms(2)] level_filter_valid(1)[OF v] st'(1))
  moreover have "\<forall>x\<in>set (keep_last (accepted entries)). rule_level x = Str ''project''"
    using keep_last_subset accepted_project by blast
  ultimately show ?thesis using st'(2,3) by auto
qed

lemma load_twice_displaces_widget_rule:
  "map_sum id (\<lambda>st2. example_rule ''w'' ''widget'' 10 ''allow'' \<in> set (rules st2))
     (load_twice (engine_with (example_rule ''w'' ''widget'' 10 ''allow'')) []
        [example_rule ''w'' ''project'' 20 ''deny'']) = Inr False"
  by code_simp

lemma load_twice_invalid_entry:
  "map_sum id (\<lambda>st2. [r \<leftarrow> rules st2. rule_level r = Str ''project''])
     (load_twice booted [] [example_rule ''p'' ''project'' 2000 ''allow'']) = Inr []"
  by code_simp

lemma load_twice_duplicate_ids:
  "map_sum id (\<lambda>st2. [r \<leftarrow> rules st2. rule_level r = Str ''project''])
     (load_twice booted []
        [example_rule ''d'' ''project'' 10 ''allow'', example_rule ''d'' ''project'' 20 ''deny''])
   = Inr [example_rule ''d'' ''project'' 20 ''deny'']"
  by code_simp

text \<open>
  C9, as the claim states it, fails in three ways, each by the way \<^verbatim>\<open>loadProjectRules\<close>
  inserts: through \<^verbatim>\<open>register\<close>, which validates and which replaces by id.
  \<^item> A rule of level \<^verbatim>\<open>widget\<close> with id \<^verbatim>\<open>w\<close> is in the store before the calls. After
    \<^verbatim>\<open>loadProjectRules\<close> of an empty set and then of a set holding a project-level rule
    with the same id, it is no longer in the store: the entry has replaced it.
  \<^item> A project-level entry of \<open>setB\<close> with priority 2000 is refused by validation: after
    the calls no rule is registered at level \<^verbatim>\<open>project\<close>.
  \<^item> Of two project-level entries of \<open>setB\<close> with the same id only the second is
    registered afterwards.
\<close>

theorem loadProjectRules_not_exactly_setB:
  "example_rule ''w'' ''widget'' 10 ''allow''
     \<in> set (rules (engine_with (example_rule ''w'' ''widget'' 10 ''allow''))) \<and>
   rule_level (example_rule ''w'' ''widget'' 10 ''allow'') = Str ''widget'' \<and>
   map_sum id (\<lambda>st2. example_rule ''w'' ''widget'' 10 ''allow'' \<in> set (rules st2))
     (load_twice (engine_with (example_rule ''w'' ''widget'' 10 ''allow'')) []
        [example_rule ''w'' ''project'' 20 ''deny'']) = Inr False \<and>
   rule_level (example_rule ''p'' ''project'' 2000 ''allow'') = Str ''project'' \<and>
   map_sum id (\<lambda>st2. [r \<leftarrow> rules st2. rule_level r = Str ''project''])
     (load_twice booted [] [example_rule ''p'' ''project'' 2000 ''allow'']) = Inr [] \<and>
   rule_level (example_rule ''d'' ''project'' 10 ''allow'') = Str ''project'' \<and>
   map_sum id (\<lambda>st2. [r \<leftarrow> rules st2. rule_level r = Str ''project''])
     (load_twice booted []
        [example_rule ''d'' ''project'' 10 ''allow'', example_rule ''d'' ''project'' 20 ''deny''])
   = Inr [example_rule ''d'' ''project'' 20 ''deny'']"
proof -
  have "example_rule ''w'' ''widget'' 10 ''allow''
          \<in> set (rules (engine_with (example_rule ''w'' ''widget'' 10 ''allow'')))"
    by code_simp
  moreover have "rule_level (example_rule ''w'' ''widget'' 10 ''allow'') = Str ''widget''"
    by code_simp
  moreover have "rule_level (example_rule ''p'' ''project'' 2000 ''allow'') = Str ''project''"
    by code_simp
  moreover have "rule_level (example_rule ''d'' ''project'' 10 ''allow'') = Str ''project''"
    by code_simp
  ultimately show ?thesis
    using load_twice_displaces_widget_rule load_twice_invalid_entry load_twice_duplicate_ids
    by simp
qed

lemma loadProjectRules_twice:
  assumes "store_valid (rules st)"
    and "get_prop projectA ''rules'' = Inr (Arr setA)"
    and "get_prop projectB ''rules'' = Inr (Arr setB)"
    and "\<forall>e\<in>set setA \<union> set setB. e \<noteq> Undefined \<and> e \<noteq> Null"
  shows "\<exists>st1 st2.
           loadProjectRules st projectA = Inr st1 \<and>
           loadProjectRules st1 projectB = Inr st2 \<and>
           distinct (map rule_id (rules st2)) \<and>
           {r \<in> set (rules st2). rule_level r = Str ''project''} = set (keep_last (accepted setB)) \<and>
           {r \<in> set (rules st2). rule_level r \<noteq> Str ''project''} =
             {r \<in> set (rules st). rule_level r \<noteq> Str ''project'' \<and>
                                   rule_id r \<notin> rule_id ` set (accepted setA) \<and>
                                   rule_id r \<notin> rule_id ` set (accepted setB)}"
proof -
  from assms(4) have a: "\<forall>e\<in>set setA. e \<noteq> Undefined \<and> e \<noteq> Null"
    and b: "\<forall>e\<in>set setB. e \<noteq> Undefined \<and> e \<noteq> Null" by auto
  from loadProjectRules_store_valid[OF assms(1,2) a] obtain st1 where
    st1: "loadProjectRules st projectA = Inr st1" "store_valid (rules st1)"
    "{x \<in> set (rules st1). rule_level x \<noteq> Str ''project''} =
       {x \<in> set (rules st). rule_level x \<noteq> Str ''project'' \<and>
                             rule_id x \<notin> rule_id ` set (accepted setA)}"
    by blast
  from loadProjectRules_store_valid[OF st1(2) assms(3) b] obtain st2 where
    st2: "loadProjectRules st1 projectB = Inr st2" "store_valid (rules st2)"
    "{x \<in> set (rules st2). rule_level x = Str ''project''} = set (keep_last (accepted setB))"
    "{x \<in> set (rules st2). rule_level x \<noteq> Str ''project''} =
       {x \<in> set (rules st1). rule_level x \<noteq> Str ''project'' \<and>
                              rule_id x \<notin> rule_id ` set (accepted setB)}"
    by blast
  have "{x \<in> set (rules st2). rule_level x \<noteq> Str ''project''} =
          {r \<in> set (rules st). rule_level r \<noteq> Str ''project'' \<and>
                                rule_id r \<notin> rule_id ` set (accepted setA) \<and>
                                rule_id r \<notin> rule_id ` set (accepted setB)}"
    unfolding st2(4) using st1(3) by blast
  with st1(1) st2(1,2,3) show ?thesis by (auto simp: store_valid_def)
qed

text \<open>
  C9, amended. Let the store hold validated rules with pairwise different ids, and let
  \<open>setA\<close> and \<open>setB\<close> be rule arrays with no \<^verbatim>\<open>null\<close> or \<^verbatim>\<open>undefined\<close> entry. Calling
  \<^verbatim>\<open>loadProjectRules(setA)\<close> and then \<^verbatim>\<open>loadProjectRules(setB)\<close> returns and leaves
  registered at level \<^verbatim>\<open>project\<close> exactly the project-level entries of \<open>setB\<close> that pass
  validation (of those sharing an id, the last): the project-level rules of \<open>setA\<close> and
  of the store are evicted, and ids stay unique. Every rule of another level present before
  the calls whose id is not the id of a valid project-level entry of \<open>setA\<close> or \<open>setB\<close>
  is still in the store, and no rule of another level is in the store that was not there
  before.
\<close>

theorem loadProjectRules_replaces:
  assumes "store_valid (rules st)"
    and "get_prop projectA ''rules'' = Inr (Arr setA)"
    and "get_prop projectB ''rules'' = Inr (Arr setB)"
    and "\<forall>e\<in>set setA \<union> set setB. e \<noteq> Undefined \<and> e \<noteq> Null"
  shows "\<exists>st1 st2.
           loadProjectRules st projectA = Inr st1 \<and>
           loadProjectRules st1 projectB = Inr st2 \<and>
           distinct (map rule_id (rules st2)) \<and>
           {r \<in> set (rules st2). rule_level r = Str ''project''} = set (keep_last (accepted setB)) \<and>
           {r \<in> set (rules st). rule_level r \<noteq> Str ''project'' \<and>
                                 rule_id r \<notin> rule_id ` set (accepted setA) \<and>
                                 rule_id r \<notin> rule_id ` set (accepted setB)}
             \<subseteq> {r \<in> set (rules st2). rule_level r \<noteq> Str ''project''} \<and>
           {r \<in> set (rules st2). rule_level r \<noteq> Str ''project''} \<subseteq> set (rules st)"
proof -
  from loadProjectRules_twice[OF assms] obtain st1 st2 where
    l: "loadProjectRules st projectA = Inr st1" "loadProjectRules st1 projectB = Inr st2"
    and d: "distinct (map rule_id (rules st2))"
    and p: "{r \<in> set (rules st2). rule_level r = Str ''project''} = set (keep_last (accepted setB))"
    and o: "{r \<in> set (rules st2). rule_level r \<noteq> Str ''project''} =
             {r \<in> set (rules st). rule_level r \<noteq> Str ''project'' \<and>
                                   rule_id r \<notin> rule_id ` set (accepted setA) \<and>
                                   rule_id r \<notin> rule_id ` set (accepted setB)}"
    by blast
  from o have "{r \<in> set (rules st). rule_level r \<noteq> Str ''project'' \<and>
                                 rule_id r \<notin> rule_id ` set (accepted setA) \<and>
                                 rule_id r \<notin> rule_id ` set (accepted setB)}
             \<subseteq> {r \<in> set (rules st2). rule_level r \<noteq> Str ''project''}"
    and "{r \<in> set (rules st2). rule_level r \<noteq> Str ''project''} \<subseteq> set (rules st)"
    by blast+
  with l d p show ?thesis by blast
qed

theorem loadProjectRules_replaces_witness:
  "\<exists>st1 st2.
     loadProjectRules booted (project_with [example_rule ''a'' ''project'' 10 ''allow'']) = Inr st1 \<and>
     loadProjectRules st1
       (project_with [example_rule ''b'' ''project'' 20 ''deny'',
                      example_rule ''c'' ''widget'' 5 ''allow'']) = Inr st2 \<and>
     distinct (map rule_id (rules st2)) \<and>
     {r \<in> set (rules st2). rule_level r = Str ''project''} = {example_rule ''b'' ''project'' 20 ''deny''} \<and>
     {r \<in> set (rules st2). rule_level r \<noteq> Str ''project''} = set (rules booted)"
proof -
  let ?A = "[example_rule ''a'' ''project'' 10 ''allow'']"
  let ?B = "[example_rule ''b'' ''project'' 20 ''deny'', example_rule ''c'' ''widget'' 5 ''allow'']"
  have h1: "store_valid (rules booted)" by code_simp
  have h2: "get_prop (project_with ?A) ''rules'' = Inr (Arr ?A)" by code_simp
  have h3: "get_prop (project_with ?B) ''rules'' = Inr (Arr ?B)" by code_simp
  have h4: "\<forall>e\<in>set ?A \<union> set ?B. e \<noteq> Undefined \<and> e \<noteq> Null" by code_simp
  have k: "set (keep_last (accepted ?B)) = {example_rule ''b'' ''project'' 20 ''deny''}" by code_simp
  have ia: "rule_id ` set (accepted ?A) = {Str ''a''}" by code_simp
  have ib: "rule_id ` set (accepted ?B) = {Str ''b''}" by code_simp
  have o: "\<forall>r\<in>set (rules booted).
             rule_level r \<noteq> Str ''project'' \<and> rule_id r \<noteq> Str ''a'' \<and> rule_id r \<noteq> Str ''b''"
    by code_simp
  then have e: "{r \<in> set (rules booted). rule_level r \<noteq> Str ''project'' \<and>
                rule_id r \<notin> rule_id ` set (accepted ?A) \<and>
                rule_id r \<notin> rule_id ` set (accepted ?B)} = set (rules booted)"
    unfolding ia ib by blast
  from loadProjectRules_replaces[OF h1 h2 h3 h4] obtain st1 st2 where
    l: "loadProjectRules booted (project_with ?A) = Inr st1"
       "loadProjectRules st1 (project_with ?B) = Inr st2"
    and d: "distinct (map rule_id (rules st2))"
    and p: "{r \<in> set (rules st2). rule_level r = Str ''project''} = set (keep_last (accepted ?B))"
    and s1: "set (rules booted) \<subseteq> {r \<in> set (rules st2). rule_level r \<noteq> Str ''project''}"
    and s2: "{r \<in> set (rules st2). rule_level r \<noteq> Str ''project''} \<subseteq> set (rules booted)"
    unfolding e by blast
  from s1 s2 have "{r \<in> set (rules st2). rule_level r \<noteq> Str ''project''} = set (rules booted)"
    by (rule subset_antisym[rotated])
  with l d p k show ?thesis by blast
qed

section \<open>Order of the store\<close>





















section \<open>What holds of malformed requests and of system rules\<close>

text \<open>
  A request without an action is denied with a reason, and so is a request whose action is
  a non-empty string that is neither in the taxonomy, nor \<^verbatim>\<open>*\<close>, nor the name of a member
  of \<^verbatim>\<open>Object.prototype\<close>; the reason then names the action.
\<close>

lemma evaluate_missing_action:
  assumes "initialized st" "\<not> truthy (read_prop request ''action'')"
  shows "evaluate env st request
           = Inr (st, \<lparr>allowed = False, reason = Str ''Invalid request: missing action'',
                       modifiedAction = None\<rparr>)"
proof (cases "truthy request")
  case False
  with assms(1) show ?thesis by (simp add: evaluate_def)
next
  case True
  then have "get_prop request ''action'' = Inr (read_prop request ''action'')"
    by (intro get_prop_engine_key) auto
  with True assms show ?thesis by (simp add: evaluate_def)
qed

lemma evaluate_unknown_action:
  assumes "initialized st" "read_prop request ''action'' = Str a" "a \<noteq> []"
    and "a \<notin> set ACTIONS" "a \<notin> set Object_prototype_keys" "a \<noteq> ''*''"
  shows "evaluate env st request
           = Inr (st, \<lparr>allowed = False, reason = Str (''Unknown action: '' @ a),
                       modifiedAction = None\<rparr>)"
proof -
  from assms(2) obtain kvs where "request = Obj kvs"
    using read_prop_defined_Obj by blast
  then have "truthy request" "get_prop request ''action'' = Inr (read_prop request ''action'')"
    by (simp, intro get_prop_engine_key) simp_all
  with assms show ?thesis by (simp add: evaluate_def ACTIONS_truthy_def)
qed

lemma unknown_action_example:
  "evaluate env booted (Obj [(''action'', Str ''totally.unknown''), (''target'', Str ''*'')])
     = Inr (booted, \<lparr>allowed = False, reason = Str ''Unknown action: totally.unknown'',
                     modifiedAction = None\<rparr>)"
  by code_simp

text \<open>
  \<^verbatim>\<open>unregister\<close> refuses to remove a rule of level \<^verbatim>\<open>system\<close> and \<^verbatim>\<open>clear\<close> keeps exactly
  the rules of that level. After \<^verbatim>\<open>unregister("system-boot-allow")\<close> the boot action is
  still allowed.
\<close>

lemma same_id_same_rule:
  assumes "distinct (map rule_id s)" "x \<in> set s" "y \<in> set s" "rule_id x = rule_id y"
  shows "x = y"
  using assms by (meson distinct_map inj_onD)

lemma unregister_system_rule:
  assumes "store_valid (rules st)" "r \<in> set (rules st)" "rule_level r = Str ''system''"
  shows "unregister st (rule_id r) = Inr (st, False)"
proof -
  from assms(1) have v: "\<forall>x\<in>set (rules st). valid_rule x"
    and d: "distinct (map rule_id (rules st))"
    by (simp_all add: store_valid_def)
  have f: "findIndex (has_id (rule_id r)) (rules st)
             = Inr (first_index (\<lambda>x. rule_id x = rule_id r) (rules st))"
    by (rule findIndex_total) (use v has_id_valid in auto)
  from assms(2) obtain i where i: "first_index (\<lambda>x. rule_id x = rule_id r) (rules st) = Some i"
    using first_index_None[of "\<lambda>x. rule_id x = rule_id r" "rules st"] by fastforce
  from first_index_Some[OF i] have "rules st ! i \<in> set (rules st)"
    "rule_id (rules st ! i) = rule_id r" by simp_all
  with same_id_same_rule[OF d _ assms(2)] have "rules st ! i = r" by blast
  moreover have "get_prop r ''level'' = Inr (rule_level r)"
    using v assms(2) by (simp add: valid_rule_get_prop rule_level_def)
  ultimately show ?thesis by (simp add: unregister_def f i assms(3))
qed

lemma clear_keeps_system_rules:
  assumes "\<forall>x\<in>set (rules st). valid_rule x"
  shows "clear st = Inr (st\<lparr>rules := [x \<leftarrow> rules st. rule_level x = Str ''system'']\<rparr>)"
  by (simp add: clear_def level_filter_valid(2)[OF assms])

lemma boot_rule_survives_unregister:
  "unregister booted (Str ''system-boot-allow'') = Inr (booted, False) \<and>
   evaluate env booted (Obj [(''action'', Str ''system.boot'')])
     = Inr (booted, \<lparr>allowed = True, reason = Str ''System boot is always allowed'',
                     modifiedAction = None\<rparr>)"
  by code_simp

end
